theory Spec2Isabelle
  imports Main
begin

section \<open>Values kept in browser storage\<close>

text \<open>
  The storage service (\<^verbatim>\<open>public/conversation-storage.js\<close>) keeps JavaScript data as
  JSON text in \<^verbatim>\<open>window.localStorage\<close>. JavaScript strings are modelled as HOL strings
  (characters below 256), JSON numbers as integers.
\<close>

datatype json =
    JNull
  | JBool bool
  | JNum int
  | JStr string
  | JArr "json list"
  | JObj "(string \<times> json) list"

text \<open>
  A stored text is the empty string, a non-empty text that \<^verbatim>\<open>JSON.parse\<close> rejects, or a
  text that \<^verbatim>\<open>JSON.parse\<close> accepts, represented by the value it parses to.
  \<^verbatim>\<open>JSON.stringify\<close> of a JSON value produces a text that parses back to that value.
\<close>

datatype stored = Empty | Malformed | Parses json

datatype js_error = SyntaxError | TypeError

fun JSON_parse :: "stored \<Rightarrow> js_error + json" where
  "JSON_parse Empty = Inl SyntaxError"
| "JSON_parse Malformed = Inl SyntaxError"
| "JSON_parse (Parses j) = Inr j"

definition JSON_stringify :: "json \<Rightarrow> stored" where
  "JSON_stringify j = Parses j"

text \<open>Truthiness of a string (\<^verbatim>\<open>if (storedData)\<close>) and of a parsed value (\<^verbatim>\<open>x || []\<close>).\<close>

fun text_truthy :: "stored \<Rightarrow> bool" where
  "text_truthy Empty = False"
| "text_truthy Malformed = True"
| "text_truthy (Parses j) = True"

fun truthy :: "json \<Rightarrow> bool" where
  "truthy JNull = False"
| "truthy (JBool b) = b"
| "truthy (JNum n) = (n \<noteq> 0)"
| "truthy (JStr s) = (s \<noteq> [])"
| "truthy (JArr xs) = True"
| "truthy (JObj kvs) = True"

text \<open>
  \<^verbatim>\<open>conversationData.messages || []\<close>: reading a property of \<^verbatim>\<open>null\<close> raises a
  TypeError; an object yields the value of its last \<^verbatim>\<open>messages\<close> member; every other
  value has no such property and yields \<^verbatim>\<open>undefined\<close>, replaced by the empty array.
\<close>

fun messages_or_empty :: "json \<Rightarrow> js_error + json" where
  "messages_or_empty JNull = Inl TypeError"
| "messages_or_empty (JObj kvs) =
     (case map_of (rev kvs) ''messages'' of
        None \<Rightarrow> Inr (JArr [])
      | Some m \<Rightarrow> if truthy m then Inr m else Inr (JArr []))"
| "messages_or_empty j = Inr (JArr [])"

section \<open>The key-value backend\<close>

text \<open>
  \<^verbatim>\<open>window.localStorage\<close> is an ordered list of entries with distinct keys;
  \<^verbatim>\<open>key(i)\<close> is the key of the \<open>i\<close>-th entry. \<^verbatim>\<open>setItem\<close> is taken to succeed (the
  storage quota is not modelled) and the backend is taken to exist.
\<close>

type_synonym localStorage = "(string \<times> stored) list"

fun setItem :: "string \<Rightarrow> stored \<Rightarrow> localStorage \<Rightarrow> localStorage" where
  "setItem k v [] = [(k, v)]"
| "setItem k v ((k', v') # rest) =
     (if k' = k then (k, v) # rest else (k', v') # setItem k v rest)"



section \<open>String helpers of the platform\<close>

definition startsWith :: "string \<Rightarrow> string \<Rightarrow> bool" where
  "startsWith s p = (take (length p) s = p)"

text \<open>\<^verbatim>\<open>s.split(c)\<close> for a one-character separator: never the empty array.\<close>

fun split :: "char \<Rightarrow> string \<Rightarrow> string list" where
  "split c [] = [[]]"
| "split c (x # xs) =
     (if x = c then [] # split c xs
      else (case split c xs of
              [] \<Rightarrow> [[x]]
            | w # ws \<Rightarrow> (x # w) # ws))"

text \<open>\<^verbatim>\<open>xs.pop()\<close>: the last element, \<^verbatim>\<open>undefined\<close> on the empty array.\<close>

definition pop :: "'a list \<Rightarrow> 'a option" where
  "pop xs = (if xs = [] then None else Some (last xs))"

section \<open>ConversationStorage\<close>

definition storageKeyPrefix :: string where
  "storageKeyPrefix = ''agenticone_conversation_''"


definition storageKey :: "string \<Rightarrow> string \<Rightarrow> string" where
  "storageKey userEmail agentRole = storageKeyPrefix @ userEmail @ ''_'' @ agentRole"


text \<open>
  \<^verbatim>\<open>saveConversationToLocal(userEmail, agentRole, messages)\<close>; \<open>now\<close> is
  \<^verbatim>\<open>new Date().toISOString()\<close>.
\<close>

definition saveConversationToLocal ::
  "string \<Rightarrow> string \<Rightarrow> json list \<Rightarrow> string \<Rightarrow> localStorage \<Rightarrow> localStorage" where
  "saveConversationToLocal userEmail agentRole messages now ls =
     (let conversationData = JObj
            [(''user_email'', JStr userEmail),
             (''agent_role'', JStr agentRole),
             (''messages'', JArr messages),
             (''last_updated'', JStr now),
             (''message_count'', JNum (int (length messages)))]
      in setItem (storageKey userEmail agentRole) (JSON_stringify conversationData) ls)"







text \<open>
  \<^verbatim>\<open>getAllUserConversations\<close>: one \<^verbatim>\<open>try\<close> encloses the whole loop, and the
  \<^verbatim>\<open>conversations\<close> object lives outside it. The loop returns the object as filled so
  far together with the exception that ended it, if any; the \<^verbatim>\<open>catch\<close> block logs the
  exception and the object is returned.
\<close>

type_synonym conversations = "string \<rightharpoonup> json"

fun collect :: "string \<Rightarrow> localStorage \<Rightarrow> conversations \<Rightarrow> conversations \<times> js_error option" where
  "collect userEmail [] conv = (conv, None)"
| "collect userEmail ((key, storedData) # rest) conv =
     (if key \<noteq> [] \<and> startsWith key (storageKeyPrefix @ userEmail @ ''_'') then
        (let agentRole = (case pop (split CHR ''_'' key) of
                            None \<Rightarrow> ''undefined''
                          | Some r \<Rightarrow> r)
         in if text_truthy storedData then
              (case JSON_parse storedData of
                 Inl e \<Rightarrow> (conv, Some e)
               | Inr conversationData \<Rightarrow>
                   (case messages_or_empty conversationData of
                      Inl e \<Rightarrow> (conv, Some e)
                    | Inr ms \<Rightarrow> collect userEmail rest (conv(agentRole \<mapsto> ms))))
            else collect userEmail rest conv)
      else collect userEmail rest conv)"

definition getAllUserConversations :: "string \<Rightarrow> localStorage \<Rightarrow> conversations" where
  "getAllUserConversations userEmail ls = fst (collect userEmail ls Map.empty)"

text \<open>
  The key under which the loop files a record (\<^verbatim>\<open>key.split('_').pop()\<close>), the entries
  of the store whose body the loop enters for a user (key with the prefix of the user,
  non-empty text), and those of them at which it raises: the text does not parse, or
  reading \<^verbatim>\<open>messages\<close> of the parsed value fails.
\<close>

definition extractAgentRole :: "string \<Rightarrow> string" where
  "extractAgentRole key =
     (case pop (split CHR ''_'' key) of
        None \<Rightarrow> ''undefined''
      | Some r \<Rightarrow> r)"

definition ofUser :: "string \<Rightarrow> string \<times> stored \<Rightarrow> bool" where
  "ofUser userEmail e =
     (fst e \<noteq> [] \<and> startsWith (fst e) (storageKeyPrefix @ userEmail @ ''_'') \<and>
      text_truthy (snd e))"

definition unreadable :: "string \<Rightarrow> string \<times> stored \<Rightarrow> bool" where
  "unreadable userEmail e =
     (ofUser userEmail e \<and>
      (case JSON_parse (snd e) of
         Inl err \<Rightarrow> True
       | Inr conversationData \<Rightarrow>
           (case messages_or_empty conversationData of
              Inl err \<Rightarrow> True
            | Inr ms \<Rightarrow> False)))"

section \<open>Guest sign-in\<close>


text \<open>Decimal text of a number, as string concatenation with \<^verbatim>\<open>Date.now()\<close> produces.\<close>

fun toString :: "nat \<Rightarrow> string" where
  "toString n =
     (if n < 10 then [''0123456789'' ! n]
      else toString (n div 10) @ [''0123456789'' ! (n mod 10)])"

declare toString.simps [simp del]


section \<open>The chat controller\<close>

text \<open>
  The state of the \<^verbatim>\<open>App\<close> component. The types of \<^verbatim>\<open>types.ts\<close> and the table
  \<^verbatim>\<open>AGENT_ROLES\<close> of \<^verbatim>\<open>constants.ts\<close> are not among the sources: messages carry the
  fields the component reads and writes, and \<^verbatim>\<open>AGENT_ROLES\<close> is a parameter.
\<close>

type_synonym AgentRole = string

datatype Role = User | Assistant

record Message =
  role :: Role
  content :: string
  agentId :: "AgentRole option"

record Agent =
  agent_name :: string
  systemPrompt :: string

record UploadedFile =
  upload_name :: string
  mimeType :: string
  data :: string

datatype Status = uploading | processing | ready

record UploadedFileState =
  uploaded :: UploadedFile
  status :: Status
  progress :: nat

record RagSources =
  standards :: bool
  internal :: bool
  sensors :: bool
  workorders :: bool

record QueryEntry =
  query_id :: string
  query :: string
  agent :: string
  timestamp :: nat

record App =
  selectedAgent :: AgentRole
  ragSources :: RagSources
  chatHistories :: "AgentRole \<rightharpoonup> Message list"
  input :: string
  isLoading :: bool
  isStreaming :: bool
  uploadedFiles :: "UploadedFileState list"
  fileError :: "string option"
  tokenCount :: nat
  queryHistory :: "QueryEntry list"

text \<open>\<^verbatim>\<open>prev[agent] || []\<close>: an array is truthy, a missing key gives the empty array.\<close>

definition orEmpty :: "'a list option \<Rightarrow> 'a list" where
  "orEmpty h = (case h of None \<Rightarrow> [] | Some xs \<Rightarrow> xs)"

text \<open>\<^verbatim>\<open>String.prototype.trim\<close> on characters below 256.\<close>

definition isWhiteSpace :: "char \<Rightarrow> bool" where
  "isWhiteSpace c = (of_char c \<in> {9, 10, 11, 12, 13, 32, 160 :: nat})"

definition trim :: "string \<Rightarrow> string" where
  "trim s = rev (dropWhile isWhiteSpace (rev (dropWhile isWhiteSpace s)))"

fun join :: "string \<Rightarrow> string list \<Rightarrow> string" where
  "join sep [] = []"
| "join sep [x] = x"
| "join sep (x # y # ys) = x @ sep @ join sep (y # ys)"

definition entries :: "RagSources \<Rightarrow> (string \<times> bool) list" where
  "entries r =
     [(''standards'', standards r), (''internal'', internal r),
      (''sensors'', sensors r), (''workorders'', workorders r)]"

subsection \<open>The request of a send\<close>

datatype Part = TextPart string | InlineData string string

record Content =
  content_role :: string
  parts :: "Part list"

text \<open>
  What one call of \<^verbatim>\<open>handleSendMessage\<close> keeps in its closure after the submit: the
  specialist selected when it was called, the request, and the two loop variables.
\<close>

record Send =
  capturedAgent :: AgentRole
  inputContents :: "Content list"
  systemInstruction :: string
  firstChunk :: bool
  fullResponse :: string

subsection \<open>\<^verbatim>\<open>handleSendMessage\<close>, piece by piece\<close>

text \<open>
  The handler is asynchronous: between two of its \<^verbatim>\<open>await\<close>s other handlers may run.
  Each piece below is the code between two suspension points, as a function of the state
  at the moment it runs. The handler in use is the one of the latest render, so the state
  it has captured is the current one. \<open>None\<close> is the early \<^verbatim>\<open>return\<close>.
\<close>

definition submit :: "(AgentRole \<Rightarrow> Agent) \<Rightarrow> nat \<Rightarrow> App \<Rightarrow> (Send \<times> App) option" where
  "submit AGENT_ROLES now st =
     (if trim (input st) = [] \<or> isLoading st then None
      else
        (let userMessage = \<lparr> role = User, content = input st, agentId = None \<rparr>;
             currentInput = input st;
             historyEntry = \<lparr> query_id = toString now, query = trim (input st),
                              agent = agent_name (AGENT_ROLES (selectedAgent st)),
                              timestamp = now \<rparr>;
             currentAgentHistory = orEmpty (chatHistories st (selectedAgent st));
             ag = AGENT_ROLES (selectedAgent st);
             selectedSources = join '', '' (map fst (filter snd (entries (ragSources st))));
             promptWithContext = ''Using data from: ['' @ selectedSources @ ''].'' @
                                 [CHR 0x0A, CHR 0x0A] @ currentInput;
             historyForAPI =
               map (\<lambda>msg. \<lparr> content_role = (if role msg = Assistant then ''model'' else ''user''),
                            parts = [TextPart (content msg)] \<rparr>)
                   currentAgentHistory;
             readyFiles = map uploaded (filter (\<lambda>f. status f = ready) (uploadedFiles st));
             fileParts = map (\<lambda>f. InlineData (mimeType f) (data f)) readyFiles;
             userParts = fileParts @ [TextPart promptWithContext]
         in Some (\<lparr> capturedAgent = selectedAgent st,
                     inputContents = historyForAPI @ [\<lparr> content_role = ''user'', parts = userParts \<rparr>],
                     systemInstruction = systemPrompt ag,
                     firstChunk = True,
                     fullResponse = [] \<rparr>,
                   st\<lparr> input := [],
                       queryHistory := historyEntry # take 49 (queryHistory st),
                       chatHistories := (chatHistories st)
                          (selectedAgent st \<mapsto> currentAgentHistory @ [userMessage]),
                       isLoading := True \<rparr>)))"

text \<open>\<^verbatim>\<open>setTokenCount(prev => prev + n)\<close>, after either token count.\<close>

definition addTokens :: "nat \<Rightarrow> App \<Rightarrow> App" where
  "addTokens n st = st\<lparr> tokenCount := tokenCount st + n \<rparr>"

text \<open>After \<^verbatim>\<open>generateContentStream\<close> has returned the stream.\<close>

definition streamOpened :: "App \<Rightarrow> App" where
  "streamOpened st = st\<lparr> isLoading := False, isStreaming := True \<rparr>"

text \<open>
  The body of the \<^verbatim>\<open>for await\<close> loop for one chunk; \<open>None\<close> is a chunk without text.
  The second updater reads \<^verbatim>\<open>lastMessage.content\<close> of the last message of the log: on an
  empty log \<^verbatim>\<open>lastMessage\<close> is \<^verbatim>\<open>undefined\<close> and the read raises a TypeError.
\<close>

definition onChunk :: "string option \<Rightarrow> Send \<times> App \<Rightarrow> js_error + Send \<times> App" where
  "onChunk chunk p =
     (let s = fst p; st = snd p;
          chunkText = (case chunk of None \<Rightarrow> [] | Some t \<Rightarrow> t)
      in if chunkText = [] then Inr (s, st)
         else
           (let s1 = s\<lparr> fullResponse := fullResponse s @ chunkText \<rparr>;
                agentHistory = orEmpty (chatHistories st (capturedAgent s))
            in if firstChunk s1 then
                 (let newAssistantMessage =
                        \<lparr> role = Assistant, content = chunkText, agentId = Some (capturedAgent s) \<rparr>
                  in Inr (s1\<lparr> firstChunk := False \<rparr>,
                          st\<lparr> chatHistories := (chatHistories st)
                                (capturedAgent s \<mapsto> agentHistory @ [newAssistantMessage]) \<rparr>))
               else if agentHistory = [] then Inl TypeError
               else
                 (let lastMessage = last agentHistory;
                      updatedMessage = lastMessage\<lparr> content := content lastMessage @ chunkText \<rparr>
                  in Inr (s1,
                          st\<lparr> chatHistories := (chatHistories st)
                                (capturedAgent s \<mapsto> butlast agentHistory @ [updatedMessage]) \<rparr>))))"

text \<open>The loop over the chunks the stream delivers, with nothing else running in between.\<close>

fun forAwait :: "string option list \<Rightarrow> Send \<times> App \<Rightarrow> js_error + Send \<times> App" where
  "forAwait [] p = Inr p"
| "forAwait (chunk # chunks) p =
     (case onChunk chunk p of
        Inl e \<Rightarrow> Inl e
      | Inr p' \<Rightarrow> forAwait chunks p')"

definition streamExhausted :: "App \<Rightarrow> App" where
  "streamExhausted st = st\<lparr> isStreaming := False \<rparr>"

definition errorMessage :: "AgentRole \<Rightarrow> Message" where
  "errorMessage a =
     \<lparr> role = Assistant,
       content = ''Sorry, I encountered an error. Please try again.'',
       agentId = Some a \<rparr>"

definition catchBlock :: "Send \<Rightarrow> App \<Rightarrow> App" where
  "catchBlock s st =
     st\<lparr> chatHistories := (chatHistories st)
           (capturedAgent s \<mapsto>
              orEmpty (chatHistories st (capturedAgent s)) @ [errorMessage (capturedAgent s)]) \<rparr>"

definition finallyBlock :: "App \<Rightarrow> App" where
  "finallyBlock st = st\<lparr> isLoading := False, isStreaming := False \<rparr>"

subsection \<open>\<^verbatim>\<open>handleSendMessage\<close> run without interruption\<close>

text \<open>
  What the completion client does during one send: the input token count is rejected;
  it returns \<open>n\<close> and opening the stream is rejected; the stream delivers some chunks
  and then raises; the stream is exhausted and the output token count is rejected; or
  everything returns.
\<close>

datatype ApiRun =
    CountInputFails
  | StreamOpenFails nat
  | StreamFails nat "string option list"
  | CountOutputFails nat "string option list"
  | Completes nat "string option list" nat

text \<open>
  The \<^verbatim>\<open>try\<close>/\<^verbatim>\<open>catch\<close>/\<^verbatim>\<open>finally\<close> after the submit. An error raised by a state
  updater is raised when React applies the update, not by an awaited call, and is kept
  as the result.
\<close>

fun afterSubmit :: "ApiRun \<Rightarrow> Send \<times> App \<Rightarrow> js_error + App" where
  "afterSubmit CountInputFails (s, st) = Inr (finallyBlock (catchBlock s st))"
| "afterSubmit (StreamOpenFails n) (s, st) =
     Inr (finallyBlock (catchBlock s (addTokens n st)))"
| "afterSubmit (StreamFails n chunks) (s, st) =
     (case forAwait chunks (s, streamOpened (addTokens n st)) of
        Inl e \<Rightarrow> Inl e
      | Inr (s', st') \<Rightarrow> Inr (finallyBlock (catchBlock s' st')))"
| "afterSubmit (CountOutputFails n chunks) (s, st) =
     (case forAwait chunks (s, streamOpened (addTokens n st)) of
        Inl e \<Rightarrow> Inl e
      | Inr (s', st') \<Rightarrow> Inr (finallyBlock (catchBlock s' (streamExhausted st'))))"
| "afterSubmit (Completes n chunks m) (s, st) =
     (case forAwait chunks (s, streamOpened (addTokens n st)) of
        Inl e \<Rightarrow> Inl e
      | Inr (s', st') \<Rightarrow> Inr (finallyBlock (addTokens m (streamExhausted st'))))"

definition handleSendMessage ::
  "(AgentRole \<Rightarrow> Agent) \<Rightarrow> nat \<Rightarrow> ApiRun \<Rightarrow> App \<Rightarrow> js_error + App" where
  "handleSendMessage AGENT_ROLES now run st =
     (case submit AGENT_ROLES now st of
        None \<Rightarrow> Inr st
      | Some p \<Rightarrow> afterSubmit run p)"

subsection \<open>\<^verbatim>\<open>handleSendMessage\<close> among other handlers\<close>

text \<open>
  While a send is suspended at an \<^verbatim>\<open>await\<close>, other handlers may run. What they do to
  the state during one suspension is a function of the state: one function for each of
  the four awaits outside the loop (the input token count, the opening of the stream,
  the end of the stream, the output token count), and one before each chunk.
\<close>

record Others =
  whileCountingInput :: "App \<Rightarrow> App"
  whileOpeningStream :: "App \<Rightarrow> App"
  whileStreamEnds :: "App \<Rightarrow> App"
  whileCountingOutput :: "App \<Rightarrow> App"

fun forAwaitAmong ::
  "((App \<Rightarrow> App) \<times> string option) list \<Rightarrow> Send \<times> App \<Rightarrow> js_error + Send \<times> App" where
  "forAwaitAmong [] p = Inr p"
| "forAwaitAmong ((other, chunk) # rest) p =
     (case onChunk chunk (fst p, other (snd p)) of
        Inl e \<Rightarrow> Inl e
      | Inr p' \<Rightarrow> forAwaitAmong rest p')"

text \<open>
  A send whose two token counts return \<open>n\<close> and \<open>m\<close> and whose stream delivers the
  chunks of \<open>steps\<close>, with the other handlers running in between.
\<close>

definition handleSendMessageAmong ::
  "(AgentRole \<Rightarrow> Agent) \<Rightarrow> nat \<Rightarrow> nat \<Rightarrow> ((App \<Rightarrow> App) \<times> string option) list \<Rightarrow> nat \<Rightarrow>
     Others \<Rightarrow> App \<Rightarrow> js_error + App" where
  "handleSendMessageAmong AGENT_ROLES now n steps m others st =
     (case submit AGENT_ROLES now st of
        None \<Rightarrow> Inr st
      | Some (s, st1) \<Rightarrow>
          (case forAwaitAmong steps
                  (s, streamOpened (whileOpeningStream others
                        (addTokens n (whileCountingInput others st1)))) of
             Inl e \<Rightarrow> Inl e
           | Inr (s', st') \<Rightarrow>
               Inr (finallyBlock (addTokens m (whileCountingOutput others
                      (streamExhausted (whileStreamEnds others st')))))))"

text \<open>The text of all chunks of a stream, in order.\<close>

definition chunkTexts :: "string option list \<Rightarrow> string" where
  "chunkTexts chunks = concat (map (\<lambda>c. case c of None \<Rightarrow> [] | Some t \<Rightarrow> t) chunks)"

subsection \<open>\<^verbatim>\<open>handleFileChange\<close>\<close>

definition MAX_FILES :: nat where
  "MAX_FILES = 5"

definition MAX_FILE_SIZE_MB :: nat where
  "MAX_FILE_SIZE_MB = 10"

definition MAX_FILE_SIZE_BYTES :: nat where
  "MAX_FILE_SIZE_BYTES = MAX_FILE_SIZE_MB * 1024 * 1024"

text \<open>
  A file of the picker: its name, type and size, and what \<^verbatim>\<open>readAsDataURL\<close> gives
  (\<open>None\<close> when the reader reports an error).
\<close>

record File =
  file_name :: string
  file_type :: string
  file_size :: nat
  file_reading :: "string option"

text \<open>\<^verbatim>\<open>result.substring(result.indexOf(',') + 1)\<close>; \<^verbatim>\<open>indexOf\<close> is -1 without a comma.\<close>

definition afterComma :: "string \<Rightarrow> string" where
  "afterComma result =
     (if CHR '','' \<in> set result then tl (dropWhile (\<lambda>c. c \<noteq> CHR '','') result) else result)"

text \<open>\<^verbatim>\<open>processFile\<close>: the resolved value and the error message it sets, if any.\<close>

definition processFile :: "File \<Rightarrow> UploadedFileState option \<times> string option" where
  "processFile f =
     (if file_size f > MAX_FILE_SIZE_BYTES then
        (None, Some (''File '' @ [CHR 0x22] @ file_name f @ [CHR 0x22] @ '' exceeds the '' @
                     toString MAX_FILE_SIZE_MB @ ''MB size limit.''))
      else
        (case file_reading f of
           None \<Rightarrow>
             (None, Some (''Error reading file '' @ [CHR 0x22] @ file_name f @ [CHR 0x22] @ ''.''))
         | Some result \<Rightarrow>
             (Some \<lparr> uploaded = \<lparr> upload_name = file_name f,
                             mimeType = (if file_type f = [] then ''application/octet-stream''
                                         else file_type f),
                             data = afterComma result \<rparr>,
                         status = uploading,
                         progress = 0 \<rparr>,
              None)))"

text \<open>
  \<^verbatim>\<open>handleFileChange\<close> up to \<^verbatim>\<open>setUploadedFiles\<close>; \<open>None\<close> is a change event without a
  file list. Each error message replaces the one before it; the readers are taken to
  finish in the order of the batch. The timers started afterwards for the progress
  display are later events of their own.
\<close>

definition handleFileChange :: "File list option \<Rightarrow> App \<Rightarrow> App" where
  "handleFileChange files st =
     (case files of
        None \<Rightarrow> st
      | Some filesToUpload \<Rightarrow>
          if length (uploadedFiles st) + length filesToUpload > MAX_FILES then
            st\<lparr> fileError := Some (''You can upload a maximum of '' @ toString MAX_FILES @ '' files.'') \<rparr>
          else
            (let results = map processFile filesToUpload;
                 newFiles = concat (map (\<lambda>r. case fst r of None \<Rightarrow> [] | Some f \<Rightarrow> [f]) results);
                 oversize = filter (\<lambda>f. file_size f > MAX_FILE_SIZE_BYTES) filesToUpload;
                 withinSize = filter (\<lambda>f. \<not> file_size f > MAX_FILE_SIZE_BYTES) filesToUpload;
                 messages = concat (map (\<lambda>f. case snd (processFile f) of None \<Rightarrow> [] | Some m \<Rightarrow> [m])
                                        (oversize @ withinSize))
             in st\<lparr> fileError := (if messages = [] then None else Some (last messages)),
                     uploadedFiles := uploadedFiles st @ newFiles \<rparr>))"

text \<open>The state the component starts in (the defaults of its \<^verbatim>\<open>useState\<close> calls).\<close>

definition initialApp :: App where
  "initialApp =
     \<lparr> selectedAgent = ''METHODS_SPECIALIST'',
       ragSources = \<lparr> standards = True, internal = True, sensors = False, workorders = False \<rparr>,
       chatHistories = Map.empty,
       input = [],
       isLoading = False,
       isStreaming = False,
       uploadedFiles = [],
       fileError = None,
       tokenCount = 0,
       queryHistory = [] \<rparr>"

text \<open>
  The chunks a run of the completion client delivers, whether it ends in an exception,
  and the assistant message a send has put into the log once these chunks have arrived.
\<close>

fun delivered :: "ApiRun \<Rightarrow> string option list" where
  "delivered CountInputFails = []"
| "delivered (StreamOpenFails n) = []"
| "delivered (StreamFails n chunks) = chunks"
| "delivered (CountOutputFails n chunks) = chunks"
| "delivered (Completes n chunks m) = chunks"

fun raises :: "ApiRun \<Rightarrow> bool" where
  "raises (Completes n chunks m) = False"
| "raises run = True"

definition assistantPart :: "AgentRole \<Rightarrow> string option list \<Rightarrow> Message list" where
  "assistantPart a chunks =
     (if chunkTexts chunks = [] then []
      else [\<lparr> role = Assistant, content = chunkTexts chunks, agentId = Some a \<rparr>])"

section \<open>Properties of the storage service\<close>




lemma collect_append:
  "collect u (xs @ ys) c =
     (case snd (collect u xs c) of
        Some e \<Rightarrow> collect u xs c
      | None \<Rightarrow> collect u ys (fst (collect u xs c)))"
  by (induction xs arbitrary: c) (auto split: sum.splits option.splits simp: Let_def)

lemma collect_skip: "\<not> ofUser u e \<Longrightarrow> collect u (e # xs) c = collect u xs c"
  by (cases e) (auto simp: ofUser_def)

lemma collect_load:
  assumes "ofUser u e" and "\<not> unreadable u e"
  shows "\<exists>ms. collect u (e # xs) c = collect u xs (c(extractAgentRole (fst e) \<mapsto> ms))"
proof (cases e)
  case (Pair k sd)
  with assms obtain j ms where "JSON_parse sd = Inr j" and "messages_or_empty j = Inr ms"
    by (auto simp: unreadable_def split: sum.splits)
  with Pair assms(1) have
    "collect u (e # xs) c = collect u xs (c(extractAgentRole (fst e) \<mapsto> ms))"
    by (simp add: ofUser_def extractAgentRole_def)
  then show ?thesis ..
qed

lemma collect_readable:
  assumes "\<forall>e \<in> set xs. \<not> unreadable u e"
  shows "snd (collect u xs c) = None"
  using assms
proof (induction xs arbitrary: c)
  case Nil
  then show ?case by simp
next
  case (Cons e xs)
  show ?case
  proof (cases "ofUser u e")
    case True
    with Cons.prems collect_load [of u e xs c] obtain ms where
      "collect u (e # xs) c = collect u xs (c(extractAgentRole (fst e) \<mapsto> ms))"
      by auto
    with Cons show ?thesis by simp
  next
    case False
    with Cons show ?thesis by (simp add: collect_skip)
  qed
qed

lemma collect_other_role:
  assumes "\<forall>e \<in> set xs. \<not> unreadable u e"
    and "\<forall>e \<in> set xs. ofUser u e \<longrightarrow> extractAgentRole (fst e) \<noteq> r"
  shows "fst (collect u xs c) r = c r"
  using assms
proof (induction xs arbitrary: c)
  case Nil
  then show ?case by simp
next
  case (Cons e xs)
  show ?case
  proof (cases "ofUser u e")
    case True
    with Cons.prems collect_load [of u e xs c] obtain ms where
      step: "collect u (e # xs) c = collect u xs (c(extractAgentRole (fst e) \<mapsto> ms))"
      by auto
    from True Cons.prems have "extractAgentRole (fst e) \<noteq> r" by simp
    with Cons step show ?thesis by simp
  next
    case False
    with Cons show ?thesis by (simp add: collect_skip)
  qed
qed

lemma collect_record:
  assumes "startsWith k (storageKeyPrefix @ u @ ''_'')"
    and "messages_or_empty j = Inr ms"
  shows "collect u ((k, Parses j) # rest) c = collect u rest (c(extractAgentRole k \<mapsto> ms))"
  using assms by (auto simp: extractAgentRole_def startsWith_def storageKeyPrefix_def)

lemma split_nonempty: "split c s \<noteq> []"
  by (induction s) (auto split: list.splits)

lemma split_no_separator: "c \<notin> set s \<Longrightarrow> split c s = [s]"
  by (induction s) auto

lemma last_split_append:
  "c \<notin> set a \<Longrightarrow> last (split c (p @ c # a)) = a"
proof (induction p)
  case Nil
  then show ?case by (simp add: split_no_separator)
next
  case (Cons x p)
  obtain w ws where sp: "split c (p @ c # a) = w # ws"
    using split_nonempty [of c "p @ c # a"] by (cases "split c (p @ c # a)") auto
  have two: "ws \<noteq> []"
  proof
    assume "ws = []"
    with sp have "split c (p @ c # a) = [w]" by simp
    moreover have "length (split c (p @ c # a)) \<ge> 2"
    proof (induction p)
      case Nil
      then show ?case using split_nonempty [of c a] by (cases "split c a") auto
    next
      case (Cons y p)
      then show ?case by (auto split: list.splits)
    qed
    ultimately show False by simp
  qed
  from Cons sp two show ?case by (auto split: list.splits)
qed

lemma extractAgentRole_storageKey:
  "CHR ''_'' \<notin> set a \<Longrightarrow> extractAgentRole (storageKey u a) = a"
  using last_split_append [of "CHR ''_''" a "storageKeyPrefix @ u"]
    split_nonempty [of "CHR ''_''" "storageKey u a"]
  by (simp add: extractAgentRole_def storageKey_def pop_def)








text \<open>
  C1 (round trip of the conversation store), evaluated at the specialist the component
  selects first. After one \<^verbatim>\<open>saveConversationToLocal\<close> for \<^verbatim>\<open>METHODS_SPECIALIST\<close> on an
  empty store, \<^verbatim>\<open>getAllUserConversations\<close> has no entry under that specialist: the saved
  messages are filed under \<^verbatim>\<open>SPECIALIST\<close>, the part of the key after its last
  underscore. The round trip does not hold there.
\<close>

theorem getAllUserConversations_truncates_role:
  "getAllUserConversations ''ada@example.com''
     (saveConversationToLocal ''ada@example.com'' ''METHODS_SPECIALIST''
        [JObj [(''role'', JStr ''user''), (''content'', JStr ''hello'')]] ''2025-01-01T00:00:00.000Z'' [])
     ''METHODS_SPECIALIST'' = None
   \<and> getAllUserConversations ''ada@example.com''
     (saveConversationToLocal ''ada@example.com'' ''METHODS_SPECIALIST''
        [JObj [(''role'', JStr ''user''), (''content'', JStr ''hello'')]] ''2025-01-01T00:00:00.000Z'' [])
     ''SPECIALIST'' = Some (JArr [JObj [(''role'', JStr ''user''), (''content'', JStr ''hello'')]])"
  by (simp add: getAllUserConversations_def saveConversationToLocal_def storageKey_def
      storageKeyPrefix_def JSON_stringify_def startsWith_def pop_def)

text \<open>
  C3 as stated fails: with two records of user \<^verbatim>\<open>ann\<close> in the store, the first malformed
  and the second well formed, \<^verbatim>\<open>getAllUserConversations\<close> returns without the
  well-formed record.
\<close>

theorem getAllUserConversations_malformed_counterexample:
  "getAllUserConversations ''ann''
     [(''agenticone_conversation_ann_A'', Malformed),
      (''agenticone_conversation_ann_B'',
       Parses (JObj [(''messages'', JArr [JStr ''kept'']), (''message_count'', JNum 1)]))]
     ''B'' = None"
  by (simp add: getAllUserConversations_def storageKeyPrefix_def startsWith_def)

text \<open>
  C3, amended: \<^verbatim>\<open>getAllUserConversations\<close> always returns a mapping, and a malformed
  record of the user ends the loading. When the records of the user stored before the
  malformed one are readable, the mapping is the one built from them alone: each of them
  is held under the key the loop extracts from its storage key (for a specialist id
  without underscore, the id itself), unless a later one of them has the same extracted
  key; and the mapping holds nothing under any other key, so no record stored after the
  malformed one is loaded.
\<close>

theorem getAllUserConversations_stops_at_malformed:
  assumes "startsWith key (storageKeyPrefix @ userEmail @ ''_'')"
    and "\<forall>e \<in> set before. \<not> unreadable userEmail e"
  shows "getAllUserConversations userEmail (before @ (key, Malformed) # after) =
           getAllUserConversations userEmail before
       \<and> (\<forall>b1 k j ms b2.
             before = b1 @ (k, Parses j) # b2 \<and>
             startsWith k (storageKeyPrefix @ userEmail @ ''_'') \<and>
             messages_or_empty j = Inr ms \<and>
             (\<forall>e \<in> set b2. ofUser userEmail e \<longrightarrow> extractAgentRole (fst e) \<noteq> extractAgentRole k)
             \<longrightarrow> getAllUserConversations userEmail (before @ (key, Malformed) # after)
                   (extractAgentRole k) = Some ms)
       \<and> (\<forall>r. (\<forall>e \<in> set before. ofUser userEmail e \<longrightarrow> extractAgentRole (fst e) \<noteq> r)
             \<longrightarrow> getAllUserConversations userEmail (before @ (key, Malformed) # after) r = None)
       \<and> (\<forall>a. CHR ''_'' \<notin> set a \<longrightarrow> extractAgentRole (storageKey userEmail a) = a)"
proof -
  have cut: "getAllUserConversations userEmail (before @ (key, Malformed) # after) =
             getAllUserConversations userEmail before"
    using assms(1)
    by (auto simp: getAllUserConversations_def collect_append startsWith_def storageKeyPrefix_def
        split: option.splits)
  have held: "getAllUserConversations userEmail before (extractAgentRole k) = Some ms"
    if split: "before = b1 @ (k, Parses j) # b2"
      and key: "startsWith k (storageKeyPrefix @ userEmail @ ''_'')"
      and ms: "messages_or_empty j = Inr ms"
      and last: "\<forall>e \<in> set b2. ofUser userEmail e \<longrightarrow> extractAgentRole (fst e) \<noteq> extractAgentRole k"
    for b1 k j ms b2
  proof -
    from assms(2) split have r1: "\<forall>e \<in> set b1. \<not> unreadable userEmail e"
      and r2: "\<forall>e \<in> set b2. \<not> unreadable userEmail e"
      by auto
    let ?c1 = "fst (collect userEmail b1 Map.empty)"
    have "collect userEmail before Map.empty = collect userEmail ((k, Parses j) # b2) ?c1"
      unfolding split by (simp add: collect_append collect_readable [OF r1])
    also have "\<dots> = collect userEmail b2 (?c1(extractAgentRole k \<mapsto> ms))"
      by (rule collect_record [OF key ms])
    finally have "getAllUserConversations userEmail before (extractAgentRole k) =
        fst (collect userEmail b2 (?c1(extractAgentRole k \<mapsto> ms))) (extractAgentRole k)"
      by (simp add: getAllUserConversations_def)
    also have "\<dots> = (?c1(extractAgentRole k \<mapsto> ms)) (extractAgentRole k)"
      by (rule collect_other_role [OF r2 last])
    finally show ?thesis by simp
  qed
  have none: "getAllUserConversations userEmail before r = None"
    if "\<forall>e \<in> set before. ofUser userEmail e \<longrightarrow> extractAgentRole (fst e) \<noteq> r" for r
    using collect_other_role [OF assms(2) that, of Map.empty]
    by (simp add: getAllUserConversations_def)
  show ?thesis
    unfolding cut using held none extractAgentRole_storageKey by blast
qed


theorem getAllUserConversations_stops_at_malformed_witness:
  "startsWith ''agenticone_conversation_ann_B'' (storageKeyPrefix @ ''ann'' @ ''_'')
   \<and> getAllUserConversations ''ann''
       ([(''agenticone_conversation_ann_A'', Parses (JObj [(''messages'', JArr [JStr ''first''])]))] @
        (''agenticone_conversation_ann_B'', Malformed) #
        [(''agenticone_conversation_ann_C'', Parses (JObj [(''messages'', JArr [JStr ''last''])]))])
       ''A'' = Some (JArr [JStr ''first''])
   \<and> getAllUserConversations ''ann''
       ([(''agenticone_conversation_ann_A'', Parses (JObj [(''messages'', JArr [JStr ''first''])]))] @
        (''agenticone_conversation_ann_B'', Malformed) #
        [(''agenticone_conversation_ann_C'', Parses (JObj [(''messages'', JArr [JStr ''last''])]))])
       ''C'' = None"
proof -
  let ?before = "[(''agenticone_conversation_ann_A'',
                   Parses (JObj [(''messages'', JArr [JStr ''first''])]))]"
  let ?after = "[(''agenticone_conversation_ann_C'',
                  Parses (JObj [(''messages'', JArr [JStr ''last''])]))]"
  have h1: "startsWith ''agenticone_conversation_ann_B'' (storageKeyPrefix @ ''ann'' @ ''_'')"
    by (simp add: startsWith_def storageKeyPrefix_def)
  have h2: "\<forall>e \<in> set ?before. \<not> unreadable ''ann'' e"
    by (simp add: unreadable_def)
  note inst = getAllUserConversations_stops_at_malformed [OF h1 h2, of ?after]
  have roleA: "extractAgentRole ''agenticone_conversation_ann_A'' = ''A''"
    by (simp add: extractAgentRole_def pop_def)
  have p1: "?before = [] @ (''agenticone_conversation_ann_A'',
                Parses (JObj [(''messages'', JArr [JStr ''first''])])) # []
      \<and> startsWith ''agenticone_conversation_ann_A'' (storageKeyPrefix @ ''ann'' @ ''_'')
      \<and> messages_or_empty (JObj [(''messages'', JArr [JStr ''first''])]) = Inr (JArr [JStr ''first''])
      \<and> (\<forall>e \<in> set []. ofUser ''ann'' e \<longrightarrow>
            extractAgentRole (fst e) \<noteq> extractAgentRole ''agenticone_conversation_ann_A'')"
    by (simp add: startsWith_def storageKeyPrefix_def)
  have p2: "\<forall>e \<in> set ?before. ofUser ''ann'' e \<longrightarrow> extractAgentRole (fst e) \<noteq> ''C''"
    by (simp add: roleA)
  have a: "getAllUserConversations ''ann''
       (?before @ (''agenticone_conversation_ann_B'', Malformed) # ?after)
       (extractAgentRole ''agenticone_conversation_ann_A'') = Some (JArr [JStr ''first''])"
    by (rule inst [THEN conjunct2, THEN conjunct1,
          THEN spec [of _ "[]"], THEN spec [of _ "''agenticone_conversation_ann_A''"],
          THEN spec [of _ "JObj [(''messages'', JArr [JStr ''first''])]"],
          THEN spec [of _ "JArr [JStr ''first'']"], THEN spec [of _ "[]"], THEN mp, OF p1])
  have c: "getAllUserConversations ''ann''
       (?before @ (''agenticone_conversation_ann_B'', Malformed) # ?after) ''C'' = None"
    by (rule inst [THEN conjunct2, THEN conjunct2, THEN conjunct1,
          THEN spec [of _ "''C''"], THEN mp, OF p2])
  from a c h1 show ?thesis by (simp only: roleA) 
qed





section \<open>Properties of the chat controller\<close>

lemma chunkTexts_Nil [simp]: "chunkTexts [] = []"
  by (simp add: chunkTexts_def)

lemma chunkTexts_Cons [simp]:
  "chunkTexts (c # cs) = (case c of None \<Rightarrow> [] | Some t \<Rightarrow> t) @ chunkTexts cs"
  by (simp add: chunkTexts_def)

lemma orEmpty_Some [simp]: "orEmpty (Some h) = h"
  by (simp add: orEmpty_def)

lemma orEmpty_None [simp]: "orEmpty None = []"
  by (simp add: orEmpty_def)

lemma submit_accepts:
  assumes "trim (input st) \<noteq> []" and "\<not> isLoading st"
  shows "\<exists>s st1. submit AR now st = Some (s, st1)
           \<and> capturedAgent s = selectedAgent st \<and> firstChunk s \<and> fullResponse s = []
           \<and> chatHistories st1 = (chatHistories st)
                (selectedAgent st \<mapsto> orEmpty (chatHistories st (selectedAgent st)) @
                   [\<lparr> role = User, content = input st, agentId = None \<rparr>])
           \<and> tokenCount st1 = tokenCount st"
  using assms by (simp add: submit_def Let_def)

lemma onChunk_frame:
  assumes "onChunk c (s, st) = Inr (s', st')"
  shows "capturedAgent s' = capturedAgent s
       \<and> (\<forall>b. b \<noteq> capturedAgent s \<longrightarrow> chatHistories st' b = chatHistories st b)
       \<and> selectedAgent st' = selectedAgent st \<and> tokenCount st' = tokenCount st"
  using assms by (auto simp: onChunk_def Let_def split: if_splits)

lemma forAwait_frame:
  assumes "forAwait cs (s, st) = Inr (s', st')"
  shows "capturedAgent s' = capturedAgent s
       \<and> (\<forall>b. b \<noteq> capturedAgent s \<longrightarrow> chatHistories st' b = chatHistories st b)
       \<and> selectedAgent st' = selectedAgent st \<and> tokenCount st' = tokenCount st"
  using assms
proof (induction cs arbitrary: s st)
  case Nil
  then show ?case by simp
next
  case (Cons c cs)
  from Cons.prems obtain s1 st1 where
    step: "onChunk c (s, st) = Inr (s1, st1)" and rest: "forAwait cs (s1, st1) = Inr (s', st')"
    by (auto split: sum.splits)
  from onChunk_frame [OF step] Cons.IH [OF rest] show ?case by simp
qed

lemma orEmpty_upd [simp]: "orEmpty ((m(a \<mapsto> h)) a) = h"
  by (simp add: orEmpty_def)

lemma orEmpty_nonempty: "orEmpty (m a) = h \<Longrightarrow> h \<noteq> [] \<Longrightarrow> m a = Some h"
  by (auto simp: orEmpty_def split: option.splits)

lemma forAwait_merging:
  assumes "\<not> firstChunk s" and "orEmpty (chatHistories st (capturedAgent s)) = h @ [m]"
  shows "forAwait cs (s, st) =
           Inr (s\<lparr> fullResponse := fullResponse s @ chunkTexts cs \<rparr>,
                st\<lparr> chatHistories := (chatHistories st)
                      (capturedAgent s \<mapsto> h @ [m\<lparr> content := content m @ chunkTexts cs \<rparr>]) \<rparr>)"
  using assms
proof (induction cs arbitrary: s st m)
  case Nil
  then have "chatHistories st (capturedAgent s) = Some (h @ [m])"
    using orEmpty_nonempty [of "chatHistories st" "capturedAgent s" "h @ [m]"] by simp
  then have "(chatHistories st)(capturedAgent s \<mapsto> h @ [m]) = chatHistories st"
    by (simp add: fun_upd_idem_iff)
  then show ?case by simp
next
  case (Cons c cs)
  show ?case
  proof (cases "(case c of None \<Rightarrow> [] | Some t \<Rightarrow> t) = []")
    case True
    then have "onChunk c (s, st) = Inr (s, st)"
      by (simp add: onChunk_def)
    with Cons True show ?thesis by simp
  next
    case False
    define t where "t = (case c of None \<Rightarrow> [] | Some t \<Rightarrow> t)"
    let ?s1 = "s\<lparr> fullResponse := fullResponse s @ t \<rparr>"
    let ?st1 = "st\<lparr> chatHistories := (chatHistories st)
                      (capturedAgent s \<mapsto> h @ [m\<lparr> content := content m @ t \<rparr>]) \<rparr>"
    have step: "onChunk c (s, st) = Inr (?s1, ?st1)"
      using False Cons.prems by (simp add: onChunk_def t_def Let_def)
    have "forAwait cs (?s1, ?st1) =
            Inr (?s1\<lparr> fullResponse := fullResponse ?s1 @ chunkTexts cs \<rparr>,
                 ?st1\<lparr> chatHistories := (chatHistories ?st1)
                      (capturedAgent ?s1 \<mapsto> h @ [(m\<lparr> content := content m @ t \<rparr>)\<lparr> content := content (m\<lparr> content := content m @ t \<rparr>) @ chunkTexts cs \<rparr>]) \<rparr>)"
      by (rule Cons.IH) (use Cons.prems in simp_all)
    moreover have "?s1\<lparr> fullResponse := fullResponse ?s1 @ chunkTexts cs \<rparr> =
                   s\<lparr> fullResponse := fullResponse s @ chunkTexts (c # cs) \<rparr>"
      by (simp add: t_def)
    moreover have "?st1\<lparr> chatHistories := (chatHistories ?st1)
                      (capturedAgent ?s1 \<mapsto> h @ [(m\<lparr> content := content m @ t \<rparr>)\<lparr> content := content (m\<lparr> content := content m @ t \<rparr>) @ chunkTexts cs \<rparr>]) \<rparr> =
                   st\<lparr> chatHistories := (chatHistories st)
                      (capturedAgent s \<mapsto> h @ [m\<lparr> content := content m @ chunkTexts (c # cs) \<rparr>]) \<rparr>"
      by (simp add: t_def)
    ultimately have "forAwait cs (?s1, ?st1) =
            Inr (s\<lparr> fullResponse := fullResponse s @ chunkTexts (c # cs) \<rparr>,
                 st\<lparr> chatHistories := (chatHistories st)
                      (capturedAgent s \<mapsto> h @ [m\<lparr> content := content m @ chunkTexts (c # cs) \<rparr>]) \<rparr>)"
      by (simp only:)
    then show ?thesis by (simp only: forAwait.simps step sum.case)
  qed
qed

lemma onChunk_empty:
  "(case c of None \<Rightarrow> [] | Some t \<Rightarrow> t) = [] \<Longrightarrow> onChunk c p = Inr p"
  by (simp add: onChunk_def)

lemma forAwait_silent:
  "chunkTexts cs = [] \<Longrightarrow> forAwait cs p = Inr p"
  by (induction cs) (simp_all add: onChunk_empty)

lemma forAwait_first:
  assumes "firstChunk s" and "chunkTexts cs \<noteq> []"
  shows "forAwait cs (s, st) =
           Inr (s\<lparr> fullResponse := fullResponse s @ chunkTexts cs, firstChunk := False \<rparr>,
                st\<lparr> chatHistories := (chatHistories st)
                      (capturedAgent s \<mapsto> orEmpty (chatHistories st (capturedAgent s)) @
                         [\<lparr> role = Assistant, content = chunkTexts cs, agentId = Some (capturedAgent s) \<rparr>]) \<rparr>)"
  using assms
proof (induction cs)
  case Nil
  then show ?case by simp
next
  case (Cons c cs)
  show ?case
  proof (cases "(case c of None \<Rightarrow> [] | Some t \<Rightarrow> t) = []")
    case True
    then have "onChunk c (s, st) = Inr (s, st)"
      by (rule onChunk_empty)
    moreover from True Cons.prems have "chunkTexts cs \<noteq> []" by simp
    ultimately show ?thesis using Cons True by simp
  next
    case False
    define t where "t = (case c of None \<Rightarrow> [] | Some t \<Rightarrow> t)"
    let ?h = "orEmpty (chatHistories st (capturedAgent s))"
    let ?m = "\<lparr> role = Assistant, content = t, agentId = Some (capturedAgent s) \<rparr>"
    let ?s1 = "s\<lparr> fullResponse := fullResponse s @ t, firstChunk := False \<rparr>"
    let ?st1 = "st\<lparr> chatHistories := (chatHistories st) (capturedAgent s \<mapsto> ?h @ [?m]) \<rparr>"
    have step: "onChunk c (s, st) = Inr (?s1, ?st1)"
      using False Cons.prems by (simp add: onChunk_def t_def Let_def)
    have "forAwait cs (?s1, ?st1) =
            Inr (?s1\<lparr> fullResponse := fullResponse ?s1 @ chunkTexts cs \<rparr>,
                 ?st1\<lparr> chatHistories := (chatHistories ?st1)
                      (capturedAgent ?s1 \<mapsto> ?h @ [?m\<lparr> content := content ?m @ chunkTexts cs \<rparr>]) \<rparr>)"
      by (rule forAwait_merging) simp_all
    moreover have "?s1\<lparr> fullResponse := fullResponse ?s1 @ chunkTexts cs \<rparr> =
                   s\<lparr> fullResponse := fullResponse s @ chunkTexts (c # cs), firstChunk := False \<rparr>"
      by (simp add: t_def)
    moreover have "?st1\<lparr> chatHistories := (chatHistories ?st1)
                      (capturedAgent ?s1 \<mapsto> ?h @ [?m\<lparr> content := content ?m @ chunkTexts cs \<rparr>]) \<rparr> =
                   st\<lparr> chatHistories := (chatHistories st)
                      (capturedAgent s \<mapsto> ?h @
                         [\<lparr> role = Assistant, content = chunkTexts (c # cs), agentId = Some (capturedAgent s) \<rparr>]) \<rparr>"
      by (simp add: t_def)
    ultimately have "forAwait cs (?s1, ?st1) =
           Inr (s\<lparr> fullResponse := fullResponse s @ chunkTexts (c # cs), firstChunk := False \<rparr>,
                st\<lparr> chatHistories := (chatHistories st)
                      (capturedAgent s \<mapsto> ?h @
                         [\<lparr> role = Assistant, content = chunkTexts (c # cs), agentId = Some (capturedAgent s) \<rparr>]) \<rparr>)"
      by (simp only:)
    then show ?thesis by (simp only: forAwait.simps step sum.case)
  qed
qed


lemma forAwait_after_submit:
  assumes "firstChunk s" and "chatHistories st (capturedAgent s) = Some h"
  shows "\<exists>s'. forAwait cs (s, st) =
           Inr (s', st\<lparr> chatHistories := (chatHistories st)
                        (capturedAgent s \<mapsto> h @ assistantPart (capturedAgent s) cs) \<rparr>)
         \<and> capturedAgent s' = capturedAgent s"
proof -
  have "\<exists>s'. forAwait cs (s, st) =
           Inr (s', st\<lparr> chatHistories := (chatHistories st)
                        (capturedAgent s \<mapsto> h @ assistantPart (capturedAgent s) cs) \<rparr>)"
  proof (cases "chunkTexts cs = []")
    case True
    have "(chatHistories st)(capturedAgent s \<mapsto> h) = chatHistories st"
      using assms(2) by (simp add: fun_upd_idem_iff)
    then have "st\<lparr> chatHistories := (chatHistories st)
                    (capturedAgent s \<mapsto> h @ assistantPart (capturedAgent s) cs) \<rparr> = st"
      using True by (simp add: assistantPart_def)
    with True show ?thesis by (simp add: forAwait_silent)
  next
    case False
    with assms show ?thesis by (simp add: forAwait_first assistantPart_def)
  qed
  then obtain s' where loop: "forAwait cs (s, st) =
           Inr (s', st\<lparr> chatHistories := (chatHistories st)
                        (capturedAgent s \<mapsto> h @ assistantPart (capturedAgent s) cs) \<rparr>)"
    by blast
  from forAwait_frame [OF loop] have "capturedAgent s' = capturedAgent s" by simp
  with loop show ?thesis by blast
qed

lemma submit_shape:
  assumes "trim (input st) \<noteq> []" and "\<not> isLoading st"
  obtains s st1 where "submit AR now st = Some (s, st1)"
    and "capturedAgent s = selectedAgent st" and "firstChunk s"
    and "chatHistories st1 = (chatHistories st)
           (selectedAgent st \<mapsto> orEmpty (chatHistories st (selectedAgent st)) @
              [\<lparr> role = User, content = input st, agentId = None \<rparr>])"
    and "tokenCount st1 = tokenCount st"
  using submit_accepts [OF assms, of AR now] by blast

lemma run_completes:
  assumes "trim (input st) \<noteq> []" and "\<not> isLoading st"
  shows "\<exists>st'. handleSendMessage AR now (Completes n cs m) st = Inr st'
     \<and> chatHistories st' = (chatHistories st)
          (selectedAgent st \<mapsto> orEmpty (chatHistories st (selectedAgent st)) @
             [\<lparr> role = User, content = input st, agentId = None \<rparr>] @
             assistantPart (selectedAgent st) cs)
     \<and> tokenCount st' = tokenCount st + n + m
     \<and> \<not> isLoading st' \<and> \<not> isStreaming st'"
proof -
  obtain s st1 where sub: "submit AR now st = Some (s, st1)"
    and cap: "capturedAgent s = selectedAgent st" and fc: "firstChunk s"
    and log: "chatHistories st1 = (chatHistories st)
           (selectedAgent st \<mapsto> orEmpty (chatHistories st (selectedAgent st)) @
              [\<lparr> role = User, content = input st, agentId = None \<rparr>])"
    and tok: "tokenCount st1 = tokenCount st"
    using assms by (rule submit_shape)
  let ?st2 = "streamOpened (addTokens n st1)"
  let ?h = "orEmpty (chatHistories st (selectedAgent st)) @
              [\<lparr> role = User, content = input st, agentId = None \<rparr>]"
  have "chatHistories ?st2 (capturedAgent s) = Some ?h"
    by (simp add: streamOpened_def addTokens_def log cap)
  from forAwait_after_submit [OF fc this, of cs] obtain s' where
    loop: "forAwait cs (s, ?st2) =
             Inr (s', ?st2\<lparr> chatHistories := (chatHistories ?st2)
                        (capturedAgent s \<mapsto> ?h @ assistantPart (capturedAgent s) cs) \<rparr>)"
    by blast
  have run: "handleSendMessage AR now (Completes n cs m) st =
      Inr (finallyBlock (addTokens m (streamExhausted
             (?st2\<lparr> chatHistories := (chatHistories ?st2)
                        (capturedAgent s \<mapsto> ?h @ assistantPart (capturedAgent s) cs) \<rparr>))))"
    by (simp only: handleSendMessage_def sub option.case afterSubmit.simps loop sum.case
        prod.case)
  show ?thesis
    unfolding run
    by (simp add: finallyBlock_def addTokens_def streamExhausted_def streamOpened_def log cap tok)
qed


lemma run_raises:
  assumes "trim (input st) \<noteq> []" and "\<not> isLoading st" and "raises run"
  shows "\<exists>st'. handleSendMessage AR now run st = Inr st'
     \<and> chatHistories st' = (chatHistories st)
          (selectedAgent st \<mapsto> orEmpty (chatHistories st (selectedAgent st)) @
             [\<lparr> role = User, content = input st, agentId = None \<rparr>] @
             assistantPart (selectedAgent st) (delivered run) @
             [errorMessage (selectedAgent st)])
     \<and> \<not> isLoading st' \<and> \<not> isStreaming st'"
proof -
  obtain s st1 where sub: "submit AR now st = Some (s, st1)"
    and cap: "capturedAgent s = selectedAgent st" and fc: "firstChunk s"
    and log: "chatHistories st1 = (chatHistories st)
           (selectedAgent st \<mapsto> orEmpty (chatHistories st (selectedAgent st)) @
              [\<lparr> role = User, content = input st, agentId = None \<rparr>])"
    using assms(1,2) by (rule submit_shape)
  let ?h = "orEmpty (chatHistories st (selectedAgent st)) @
              [\<lparr> role = User, content = input st, agentId = None \<rparr>]"
  have streamed: "\<exists>s'. forAwait cs (s, streamOpened (addTokens n st1)) =
             Inr (s', (streamOpened (addTokens n st1))
                        \<lparr> chatHistories := (chatHistories (streamOpened (addTokens n st1)))
                        (capturedAgent s \<mapsto> ?h @ assistantPart (capturedAgent s) cs) \<rparr>)
           \<and> capturedAgent s' = capturedAgent s" for n cs
  proof -
    have "chatHistories (streamOpened (addTokens n st1)) (capturedAgent s) = Some ?h"
      by (simp add: streamOpened_def addTokens_def log cap)
    from forAwait_after_submit [OF fc this] show ?thesis .
  qed
  show ?thesis
  proof (cases run)
    case CountInputFails
    then show ?thesis
      by (simp add: handleSendMessage_def sub finallyBlock_def catchBlock_def log cap
          assistantPart_def)
  next
    case (StreamOpenFails n)
    then show ?thesis
      by (simp add: handleSendMessage_def sub finallyBlock_def catchBlock_def addTokens_def
          log cap assistantPart_def)
  next
    case (StreamFails n cs)
    from streamed [of cs n] obtain s' where
      loop: "forAwait cs (s, streamOpened (addTokens n st1)) =
             Inr (s', (streamOpened (addTokens n st1))
                        \<lparr> chatHistories := (chatHistories (streamOpened (addTokens n st1)))
                        (capturedAgent s \<mapsto> ?h @ assistantPart (capturedAgent s) cs) \<rparr>)"
      and cap': "capturedAgent s' = capturedAgent s"
      by blast
    have run: "handleSendMessage AR now run st =
        Inr (finallyBlock (catchBlock s' ((streamOpened (addTokens n st1))
                        \<lparr> chatHistories := (chatHistories (streamOpened (addTokens n st1)))
                        (capturedAgent s \<mapsto> ?h @ assistantPart (capturedAgent s) cs) \<rparr>)))"
      by (simp only: StreamFails handleSendMessage_def sub option.case afterSubmit.simps loop
          sum.case prod.case)
    show ?thesis
      unfolding run
      by (simp add: StreamFails finallyBlock_def catchBlock_def addTokens_def streamOpened_def
          log cap cap')
  next
    case (CountOutputFails n cs)
    from streamed [of cs n] obtain s' where
      loop: "forAwait cs (s, streamOpened (addTokens n st1)) =
             Inr (s', (streamOpened (addTokens n st1))
                        \<lparr> chatHistories := (chatHistories (streamOpened (addTokens n st1)))
                        (capturedAgent s \<mapsto> ?h @ assistantPart (capturedAgent s) cs) \<rparr>)"
      and cap': "capturedAgent s' = capturedAgent s"
      by blast
    have run: "handleSendMessage AR now run st =
        Inr (finallyBlock (catchBlock s' (streamExhausted ((streamOpened (addTokens n st1))
                        \<lparr> chatHistories := (chatHistories (streamOpened (addTokens n st1)))
                        (capturedAgent s \<mapsto> ?h @ assistantPart (capturedAgent s) cs) \<rparr>))))"
      by (simp only: CountOutputFails handleSendMessage_def sub option.case afterSubmit.simps
          loop sum.case prod.case)
    show ?thesis
      unfolding run
      by (simp add: CountOutputFails finallyBlock_def catchBlock_def addTokens_def
          streamOpened_def streamExhausted_def log cap cap')
  next
    case (Completes n cs m)
    with assms(3) show ?thesis by simp
  qed
qed


lemma onChunk_merge:
  assumes "\<not> firstChunk s" and "orEmpty (chatHistories st (capturedAgent s)) = h @ [m]"
  shows "\<exists>s' st'. onChunk c (s, st) = Inr (s', st')
     \<and> orEmpty (chatHistories st' (capturedAgent s)) =
         h @ [m\<lparr> content := content m @ (case c of None \<Rightarrow> [] | Some t \<Rightarrow> t) \<rparr>]
     \<and> capturedAgent s' = capturedAgent s \<and> \<not> firstChunk s'"
  using assms by (simp add: onChunk_def Let_def)

lemma onChunk_first:
  assumes "firstChunk s" and "(case c of None \<Rightarrow> [] | Some t \<Rightarrow> t) \<noteq> []"
  shows "\<exists>s' st'. onChunk c (s, st) = Inr (s', st')
     \<and> orEmpty (chatHistories st' (capturedAgent s)) =
         orEmpty (chatHistories st (capturedAgent s)) @
         [\<lparr> role = Assistant, content = (case c of None \<Rightarrow> [] | Some t \<Rightarrow> t),
            agentId = Some (capturedAgent s) \<rparr>]
     \<and> capturedAgent s' = capturedAgent s \<and> \<not> firstChunk s'"
  using assms by (simp add: onChunk_def Let_def)

lemma forAwaitAmong_merging:
  assumes "\<not> firstChunk s" and "orEmpty (chatHistories st (capturedAgent s)) = h @ [m]"
    and "\<forall>p \<in> set steps. \<forall>x. chatHistories (fst p x) (capturedAgent s) = chatHistories x (capturedAgent s)"
  shows "\<exists>s' st'. forAwaitAmong steps (s, st) = Inr (s', st')
     \<and> orEmpty (chatHistories st' (capturedAgent s)) =
         h @ [m\<lparr> content := content m @ chunkTexts (map snd steps) \<rparr>]
     \<and> capturedAgent s' = capturedAgent s"
  using assms
proof (induction steps arbitrary: s st m)
  case Nil
  then show ?case by simp
next
  case (Cons p steps)
  obtain other c where p: "p = (other, c)" by (cases p)
  let ?t = "case c of None \<Rightarrow> [] | Some t \<Rightarrow> t"
  from Cons.prems(2,3) p have "orEmpty (chatHistories (other st) (capturedAgent s)) = h @ [m]"
    by simp
  from onChunk_merge [OF Cons.prems(1) this, of c] obtain s1 st1 where
    step: "onChunk c (s, other st) = Inr (s1, st1)"
    and log: "orEmpty (chatHistories st1 (capturedAgent s)) = h @ [m\<lparr> content := content m @ ?t \<rparr>]"
    and cap: "capturedAgent s1 = capturedAgent s" and fc: "\<not> firstChunk s1"
    by blast
  from Cons.prems(3) cap have keep:
    "\<forall>p \<in> set steps. \<forall>x. chatHistories (fst p x) (capturedAgent s1) = chatHistories x (capturedAgent s1)"
    by simp
  from Cons.IH [OF fc _ keep, of st1 "m\<lparr> content := content m @ ?t \<rparr>"] log cap
  obtain s' st' where "forAwaitAmong steps (s1, st1) = Inr (s', st')"
    and "orEmpty (chatHistories st' (capturedAgent s)) =
         h @ [m\<lparr> content := content m @ ?t @ chunkTexts (map snd steps) \<rparr>]"
    and "capturedAgent s' = capturedAgent s"
    by auto
  with step p show ?case by simp
qed

lemma forAwaitAmong_first:
  assumes "firstChunk s"
    and "\<forall>p \<in> set steps. \<forall>x. chatHistories (fst p x) (capturedAgent s) = chatHistories x (capturedAgent s)"
  shows "\<exists>s' st'. forAwaitAmong steps (s, st) = Inr (s', st')
     \<and> orEmpty (chatHistories st' (capturedAgent s)) =
         orEmpty (chatHistories st (capturedAgent s)) @
         assistantPart (capturedAgent s) (map snd steps)
     \<and> capturedAgent s' = capturedAgent s"
  using assms
proof (induction steps arbitrary: st)
  case Nil
  then show ?case by (simp add: assistantPart_def)
next
  case (Cons p steps)
  obtain other c where p: "p = (other, c)" by (cases p)
  let ?t = "case c of None \<Rightarrow> [] | Some t \<Rightarrow> t"
  from Cons.prems(2) p have same:
    "chatHistories (other st) (capturedAgent s) = chatHistories st (capturedAgent s)"
    by simp
  from Cons.prems(2) have keep:
    "\<forall>p \<in> set steps. \<forall>x. chatHistories (fst p x) (capturedAgent s) = chatHistories x (capturedAgent s)"
    by simp
  show ?case
  proof (cases "?t = []")
    case True
    then have step: "onChunk c (s, other st) = Inr (s, other st)"
      by (rule onChunk_empty)
    from Cons.IH [OF Cons.prems(1) keep, of "other st"] same True step p
    show ?thesis by (auto simp: assistantPart_def)
  next
    case False
    from onChunk_first [OF Cons.prems(1) False, of "other st"] same obtain s1 st1 where
      step: "onChunk c (s, other st) = Inr (s1, st1)"
      and log: "orEmpty (chatHistories st1 (capturedAgent s)) =
          orEmpty (chatHistories st (capturedAgent s)) @
          [\<lparr> role = Assistant, content = ?t, agentId = Some (capturedAgent s) \<rparr>]"
      and cap: "capturedAgent s1 = capturedAgent s" and fc: "\<not> firstChunk s1"
      by auto
    from keep cap have keep1:
      "\<forall>p \<in> set steps. \<forall>x. chatHistories (fst p x) (capturedAgent s1) = chatHistories x (capturedAgent s1)"
      by simp
    from forAwaitAmong_merging [OF fc _ keep1, of st1 "orEmpty (chatHistories st (capturedAgent s))"
        "\<lparr> role = Assistant, content = ?t, agentId = Some (capturedAgent s) \<rparr>"] log cap
    obtain s' st' where "forAwaitAmong steps (s1, st1) = Inr (s', st')"
      and "orEmpty (chatHistories st' (capturedAgent s)) =
         orEmpty (chatHistories st (capturedAgent s)) @
         [\<lparr> role = Assistant, content = ?t @ chunkTexts (map snd steps),
            agentId = Some (capturedAgent s) \<rparr>]"
      and "capturedAgent s' = capturedAgent s"
      by auto
    with step p False show ?thesis by (simp add: assistantPart_def)
  qed
qed

lemma forAwaitAmong_alone:
  "forAwaitAmong (map (\<lambda>c. (\<lambda>x. x, c)) chunks) p = forAwait chunks p"
  by (induction chunks arbitrary: p) (auto split: sum.splits)

lemma handleSendMessageAmong_alone:
  "handleSendMessageAmong AGENT_ROLES now n (map (\<lambda>c. (\<lambda>x. x, c)) chunks) m
      \<lparr> whileCountingInput = (\<lambda>x. x), whileOpeningStream = (\<lambda>x. x),
        whileStreamEnds = (\<lambda>x. x), whileCountingOutput = (\<lambda>x. x) \<rparr> st
   = handleSendMessage AGENT_ROLES now (Completes n chunks m) st"
  by (simp add: handleSendMessageAmong_def handleSendMessage_def forAwaitAmong_alone
      split: option.splits prod.splits sum.splits)


lemma chunkTexts_append: "chunkTexts (xs @ ys) = chunkTexts xs @ chunkTexts ys"
  by (simp add: chunkTexts_def)

lemma forAwait_two_segments:
  assumes fc: "firstChunk s0"
    and seg1: "forAwait before (s0, st2) = Inr (s1, st3)"
    and same: "chatHistories st4 (capturedAgent s0) = chatHistories st3 (capturedAgent s0)"
    and seg2: "forAwait after (s1, st4) = Inr (s2, st5)"
  shows "orEmpty (chatHistories st5 (capturedAgent s0)) =
         orEmpty (chatHistories st2 (capturedAgent s0)) @
         assistantPart (capturedAgent s0) (before @ after)"
proof (cases "chunkTexts before = []")
  case True
  with seg1 have eq: "s1 = s0" "st3 = st2" by (simp_all add: forAwait_silent)
  show ?thesis
  proof (cases "chunkTexts after = []")
    case True
    with seg2 have "st5 = st4" by (simp add: forAwait_silent)
    with True \<open>chunkTexts before = []\<close> same eq show ?thesis
      by (simp add: assistantPart_def chunkTexts_append)
  next
    case False
    from seg2 eq forAwait_first [OF fc False, of st4] have
      "st5 = st4\<lparr> chatHistories := (chatHistories st4)
                      (capturedAgent s0 \<mapsto> orEmpty (chatHistories st4 (capturedAgent s0)) @
                         [\<lparr> role = Assistant, content = chunkTexts after,
                            agentId = Some (capturedAgent s0) \<rparr>]) \<rparr>"
      by simp
    then have "orEmpty (chatHistories st5 (capturedAgent s0)) =
        orEmpty (chatHistories st4 (capturedAgent s0)) @
          [\<lparr> role = Assistant, content = chunkTexts after, agentId = Some (capturedAgent s0) \<rparr>]"
      by simp
    with False \<open>chunkTexts before = []\<close> same eq show ?thesis
      by (simp add: assistantPart_def chunkTexts_append)
  qed
next
  case False
  let ?h = "orEmpty (chatHistories st2 (capturedAgent s0))"
  let ?m = "\<lparr> role = Assistant, content = chunkTexts before, agentId = Some (capturedAgent s0) \<rparr>"
  from seg1 forAwait_first [OF fc False, of st2] have
    s1: "s1 = s0\<lparr> fullResponse := fullResponse s0 @ chunkTexts before, firstChunk := False \<rparr>"
    and st3: "st3 = st2\<lparr> chatHistories := (chatHistories st2) (capturedAgent s0 \<mapsto> ?h @ [?m]) \<rparr>"
    by simp_all
  from st3 same have log4: "orEmpty (chatHistories st4 (capturedAgent s1)) = ?h @ [?m]"
    by (simp add: s1)
  have nfc: "\<not> firstChunk s1" by (simp add: s1)
  from seg2 forAwait_merging [OF nfc log4, of after] have
    "st5 = st4\<lparr> chatHistories := (chatHistories st4)
                    (capturedAgent s1 \<mapsto> ?h @ [?m\<lparr> content := content ?m @ chunkTexts after \<rparr>]) \<rparr>"
    by simp
  then have "orEmpty (chatHistories st5 (capturedAgent s0)) =
      ?h @ [?m\<lparr> content := content ?m @ chunkTexts after \<rparr>]"
    by (simp add: s1)
  with False show ?thesis
    by (simp add: assistantPart_def chunkTexts_append)
qed

text \<open>
  C2 as stated fails. A first send is accepted and its stream opens; while that stream is
  being consumed the input is filled again and submitted: the second submit is accepted,
  appends its user message and builds a new request, so two sends are in flight.
\<close>

theorem submit_while_streaming_counterexample:
  "(case submit (\<lambda>r. \<lparr> agent_name = r, systemPrompt = [] \<rparr>) 0 (initialApp\<lparr> input := ''hello'' \<rparr>) of
      None \<Rightarrow> False
    | Some (s1, a1) \<Rightarrow>
        isStreaming (streamOpened (addTokens 3 a1)) \<and>
        (case submit (\<lambda>r. \<lparr> agent_name = r, systemPrompt = [] \<rparr>) 1
                ((streamOpened (addTokens 3 a1))\<lparr> input := ''again'' \<rparr>) of
           None \<Rightarrow> False
         | Some (s2, a2) \<Rightarrow>
             isLoading a2 \<and> isStreaming a2 \<and>
             chatHistories a2 ''METHODS_SPECIALIST'' =
               Some [\<lparr> role = User, content = ''hello'', agentId = None \<rparr>,
                     \<lparr> role = User, content = ''again'', agentId = None \<rparr>]))"
  by (simp add: submit_def Let_def initialApp_def trim_def isWhiteSpace_def streamOpened_def
      addTokens_def)

text \<open>
  C2, amended: a submit is rejected exactly when the trimmed input is empty or
  \<^verbatim>\<open>isLoading\<close> is set, whichever specialist is selected and whether or not a stream is
  being consumed (\<^verbatim>\<open>isStreaming\<close> is not consulted). A rejected submit starts no send,
  builds no request and leaves the state as it is. An accepted submit appends the user
  message to the log of the selected specialist, empties the input, records the query,
  builds the request and sets \<^verbatim>\<open>isLoading\<close>. The flag is cleared when a stream opens and
  by the \<^verbatim>\<open>finally\<close> block of every send, so a submit with non-empty input is accepted
  while a stream is being consumed.
\<close>

theorem submit_rejected_while_loading:
  "(submit AGENT_ROLES now st = None) = (trim (input st) = [] \<or> isLoading st)
   \<and> (submit AGENT_ROLES now (st\<lparr> isStreaming := b, selectedAgent := a \<rparr>) = None) =
       (submit AGENT_ROLES now st = None)
   \<and> (trim (input st) = [] \<or> isLoading st \<longrightarrow>
         handleSendMessage AGENT_ROLES now run st = Inr st)
   \<and> (trim (input st) \<noteq> [] \<and> \<not> isLoading st \<longrightarrow>
         (\<exists>s. submit AGENT_ROLES now st =
                Some (s, st\<lparr> input := [],
                              queryHistory :=
                                \<lparr> query_id = toString now, query = trim (input st),
                                  agent = agent_name (AGENT_ROLES (selectedAgent st)),
                                  timestamp = now \<rparr> # take 49 (queryHistory st),
                              chatHistories := (chatHistories st)
                                (selectedAgent st \<mapsto>
                                   orEmpty (chatHistories st (selectedAgent st)) @
                                   [\<lparr> role = User, content = input st, agentId = None \<rparr>]),
                              isLoading := True \<rparr>)
              \<and> capturedAgent s = selectedAgent st \<and> firstChunk s \<and> fullResponse s = []
              \<and> inputContents s \<noteq> []))
   \<and> \<not> isLoading (streamOpened st)
   \<and> \<not> isLoading (finallyBlock st)"
  by (simp add: submit_def Let_def handleSendMessage_def streamOpened_def finallyBlock_def)

theorem submit_rejected_while_loading_witness:
  "submit (\<lambda>r. \<lparr> agent_name = r, systemPrompt = [] \<rparr>) 0
        (initialApp\<lparr> input := ''hello'', isLoading := True \<rparr>) = None
   \<and> handleSendMessage (\<lambda>r. \<lparr> agent_name = r, systemPrompt = [] \<rparr>) 0 (Completes 3 [Some ''Hi''] 2)
        (initialApp\<lparr> input := ''hello'', isLoading := True \<rparr>)
      = Inr (initialApp\<lparr> input := ''hello'', isLoading := True \<rparr>)
   \<and> handleSendMessage (\<lambda>r. \<lparr> agent_name = r, systemPrompt = [] \<rparr>) 0 (Completes 3 [Some ''Hi''] 2)
        (initialApp\<lparr> input := ''  '' \<rparr>)
      = Inr (initialApp\<lparr> input := ''  '' \<rparr>)
   \<and> (\<exists>s. submit (\<lambda>r. \<lparr> agent_name = r, systemPrompt = [] \<rparr>) 0
              (initialApp\<lparr> input := ''hello'', isStreaming := True \<rparr>)
            = Some (s, initialApp\<lparr> input := [], isStreaming := True,
                         queryHistory := [\<lparr> query_id = ''0'', query = ''hello'',
                                            agent = ''METHODS_SPECIALIST'', timestamp = 0 \<rparr>],
                         chatHistories := [''METHODS_SPECIALIST'' \<mapsto>
                            [\<lparr> role = User, content = ''hello'', agentId = None \<rparr>]],
                         isLoading := True \<rparr>))"
proof -
  let ?AR = "\<lambda>r. \<lparr> agent_name = r, systemPrompt = [] \<rparr>"
  have a: "submit ?AR 0 (initialApp\<lparr> input := ''hello'', isLoading := True \<rparr>) = None
      \<and> handleSendMessage ?AR 0 (Completes 3 [Some ''Hi''] 2)
           (initialApp\<lparr> input := ''hello'', isLoading := True \<rparr>)
         = Inr (initialApp\<lparr> input := ''hello'', isLoading := True \<rparr>)"
    using submit_rejected_while_loading
      [where AGENT_ROLES = ?AR and now = 0 and st = "initialApp\<lparr> input := ''hello'', isLoading := True \<rparr>"
         and b = True and a = "''METHODS_SPECIALIST''" and run = "Completes 3 [Some ''Hi''] 2"]
    by simp
  have b: "handleSendMessage ?AR 0 (Completes 3 [Some ''Hi''] 2) (initialApp\<lparr> input := ''  '' \<rparr>)
      = Inr (initialApp\<lparr> input := ''  '' \<rparr>)"
    using submit_rejected_while_loading
      [where AGENT_ROLES = ?AR and now = 0 and st = "initialApp\<lparr> input := ''  '' \<rparr>"
         and b = True and a = "''METHODS_SPECIALIST''" and run = "Completes 3 [Some ''Hi''] 2"]
    by (simp add: trim_def isWhiteSpace_def)
  have c: "\<exists>s. submit ?AR 0 (initialApp\<lparr> input := ''hello'', isStreaming := True \<rparr>)
            = Some (s, initialApp\<lparr> input := [], isStreaming := True,
                         queryHistory := [\<lparr> query_id = ''0'', query = ''hello'',
                                            agent = ''METHODS_SPECIALIST'', timestamp = 0 \<rparr>],
                         chatHistories := [''METHODS_SPECIALIST'' \<mapsto>
                            [\<lparr> role = User, content = ''hello'', agentId = None \<rparr>]],
                         isLoading := True \<rparr>)"
    using submit_rejected_while_loading
      [where AGENT_ROLES = ?AR and now = 0 and st = "initialApp\<lparr> input := ''hello'', isStreaming := True \<rparr>"
         and b = True and a = "''METHODS_SPECIALIST''" and run = "Completes 3 [Some ''Hi''] 2"]
    by (simp add: trim_def isWhiteSpace_def initialApp_def toString.simps) blast
  from a b c show ?thesis by simp
qed

text \<open>
  C5: a send started while specialist \<open>A\<close> was selected keeps \<open>A\<close> as its target. Its
  increments, those before and those after the selection has changed to another
  specialist \<open>B\<close>, change the log of no specialist other than \<open>A\<close>; in particular nothing
  is appended to the log of \<open>B\<close>, and the selection stays \<open>B\<close>. The increments go to the
  log of \<open>A\<close>: after those before the switch it is the log they met followed by the
  assistant message assembled from them, and when the switch leaves the log of \<open>A\<close> as
  it was, after all increments it is followed by the assistant message assembled from
  all of them.
\<close>

theorem increments_reach_only_captured_specialist:
  assumes "submit AGENT_ROLES now st0 = Some (s0, st1)"
    and "forAwait before (s0, st2) = Inr (s1, st3)"
    and "selectedAgent st4 = B" and "B \<noteq> selectedAgent st0"
    and "forAwait after (s1, st4) = Inr (s2, st5)"
  shows "capturedAgent s2 = selectedAgent st0
       \<and> (\<forall>b. b \<noteq> selectedAgent st0 \<longrightarrow>
              chatHistories st3 b = chatHistories st2 b \<and> chatHistories st5 b = chatHistories st4 b)
       \<and> chatHistories st5 B = chatHistories st4 B
       \<and> selectedAgent st5 = B
       \<and> orEmpty (chatHistories st3 (selectedAgent st0)) =
           orEmpty (chatHistories st2 (selectedAgent st0)) @
           assistantPart (selectedAgent st0) before
       \<and> (chatHistories st4 (selectedAgent st0) = chatHistories st3 (selectedAgent st0) \<longrightarrow>
            orEmpty (chatHistories st5 (selectedAgent st0)) =
            orEmpty (chatHistories st2 (selectedAgent st0)) @
            assistantPart (selectedAgent st0) (before @ after))"
proof -
  from assms(1) have cap: "capturedAgent s0 = selectedAgent st0" and fc: "firstChunk s0"
    by (auto simp: submit_def Let_def split: if_splits)
  have one: "orEmpty (chatHistories st3 (capturedAgent s0)) =
           orEmpty (chatHistories st2 (capturedAgent s0)) @ assistantPart (capturedAgent s0) before"
    using forAwait_two_segments [OF fc assms(2) refl, of "[]" s1 st3] by simp
  have two: "orEmpty (chatHistories st5 (capturedAgent s0)) =
            orEmpty (chatHistories st2 (capturedAgent s0)) @
            assistantPart (capturedAgent s0) (before @ after)"
    if "chatHistories st4 (capturedAgent s0) = chatHistories st3 (capturedAgent s0)"
    using forAwait_two_segments [OF fc assms(2) that assms(5)] .
  from cap forAwait_frame [OF assms(2)] forAwait_frame [OF assms(5)] assms(3,4) one two
  show ?thesis by simp
qed


theorem increments_reach_only_captured_specialist_witness:
  "\<exists>s0 st1 s1 st3 s2 st5.
     submit (\<lambda>r. \<lparr> agent_name = r, systemPrompt = [] \<rparr>) 0 (initialApp\<lparr> input := ''hello'' \<rparr>)
       = Some (s0, st1)
   \<and> forAwait [Some ''Hi''] (s0, streamOpened (addTokens 3 st1)) = Inr (s1, st3)
   \<and> selectedAgent (st3\<lparr> selectedAgent := ''SUBSEA_ENGINEER'' \<rparr>) = ''SUBSEA_ENGINEER''
   \<and> ''SUBSEA_ENGINEER'' \<noteq> selectedAgent (initialApp\<lparr> input := ''hello'' \<rparr>)
   \<and> forAwait [Some '' there''] (s1, st3\<lparr> selectedAgent := ''SUBSEA_ENGINEER'' \<rparr>) = Inr (s2, st5)
   \<and> capturedAgent s2 = ''METHODS_SPECIALIST''
   \<and> chatHistories st5 ''SUBSEA_ENGINEER'' = None
   \<and> selectedAgent st5 = ''SUBSEA_ENGINEER''
   \<and> orEmpty (chatHistories st5 ''METHODS_SPECIALIST'') =
       [\<lparr> role = User, content = ''hello'', agentId = None \<rparr>,
        \<lparr> role = Assistant, content = ''Hi there'', agentId = Some ''METHODS_SPECIALIST'' \<rparr>]"
proof -
  let ?AR = "\<lambda>r. \<lparr> agent_name = r, systemPrompt = [] \<rparr>"
  let ?X = "initialApp\<lparr> input := ''hello'' \<rparr>"
  obtain s0 st1 where sub: "submit ?AR 0 ?X = Some (s0, st1)" and fc: "firstChunk s0"
    and cap: "capturedAgent s0 = selectedAgent ?X"
    and log: "chatHistories st1 = (chatHistories ?X)
           (selectedAgent ?X \<mapsto> orEmpty (chatHistories ?X (selectedAgent ?X)) @
              [\<lparr> role = User, content = input ?X, agentId = None \<rparr>])"
    by (rule submit_shape [of ?X ?AR 0])
       (simp_all add: initialApp_def trim_def isWhiteSpace_def)
  let ?st2 = "streamOpened (addTokens 3 st1)"
  obtain s1 st3 where seg1: "forAwait [Some ''Hi''] (s0, ?st2) = Inr (s1, st3)"
    using forAwait_first [OF fc, of "[Some ''Hi'']" ?st2] by simp
  from forAwait_two_segments [OF fc seg1 refl, of "[]" s1 st3] cap
  have log3: "orEmpty (chatHistories st3 ''METHODS_SPECIALIST'') =
       [\<lparr> role = User, content = ''hello'', agentId = None \<rparr>,
        \<lparr> role = Assistant, content = ''Hi'', agentId = Some ''METHODS_SPECIALIST'' \<rparr>]"
    by (simp add: streamOpened_def addTokens_def log initialApp_def assistantPart_def)
  have nfc: "\<not> firstChunk s1"
    using seg1 forAwait_first [OF fc, of "[Some ''Hi'']" ?st2] by auto
  have cap1: "capturedAgent s1 = ''METHODS_SPECIALIST''"
    using forAwait_frame [OF seg1] cap by (simp add: initialApp_def)
  let ?st4 = "st3\<lparr> selectedAgent := ''SUBSEA_ENGINEER'' \<rparr>"
  have log4: "orEmpty (chatHistories ?st4 (capturedAgent s1)) =
       [\<lparr> role = User, content = ''hello'', agentId = None \<rparr>] @
       [\<lparr> role = Assistant, content = ''Hi'', agentId = Some ''METHODS_SPECIALIST'' \<rparr>]"
    using log3 cap1 by simp
  obtain s2 st5 where seg2: "forAwait [Some '' there''] (s1, ?st4) = Inr (s2, st5)"
    using forAwait_merging [OF nfc log4, of "[Some '' there'']"] by simp
  have h3: "selectedAgent ?st4 = ''SUBSEA_ENGINEER''" by simp
  have h4: "''SUBSEA_ENGINEER'' \<noteq> selectedAgent ?X" by (simp add: initialApp_def)
  have before: "chatHistories ?st4 ''SUBSEA_ENGINEER'' = None"
    using forAwait_frame [OF seg1] cap
    by (simp add: streamOpened_def addTokens_def log initialApp_def)
  have same: "chatHistories ?st4 (selectedAgent ?X) = chatHistories st3 (selectedAgent ?X)"
    by simp
  from increments_reach_only_captured_specialist [OF sub seg1 h3 h4 seg2] before same
  have "capturedAgent s2 = ''METHODS_SPECIALIST''"
    and "chatHistories st5 ''SUBSEA_ENGINEER'' = None"
    and "selectedAgent st5 = ''SUBSEA_ENGINEER''"
    and "orEmpty (chatHistories st5 ''METHODS_SPECIALIST'') =
       [\<lparr> role = User, content = ''hello'', agentId = None \<rparr>,
        \<lparr> role = Assistant, content = ''Hi there'', agentId = Some ''METHODS_SPECIALIST'' \<rparr>]"
    by (simp_all add: initialApp_def streamOpened_def addTokens_def log assistantPart_def)
  with sub seg1 h3 h4 seg2 show ?thesis by blast
qed

text \<open>
  C6 as stated fails. A send to the default specialist receives the increment \<^verbatim>\<open>Hi\<close>;
  while its stream is still being consumed the user submits \<^verbatim>\<open>wait\<close> to the same
  specialist (submits are accepted during streaming); the next increment \<^verbatim>\<open> there\<close> of
  the first send is then merged into the last message of the log, which is the new user
  message. When the stream is exhausted the assistant message appended by the first send
  has the content \<^verbatim>\<open>Hi\<close>, not the concatenation \<^verbatim>\<open>Hi there\<close> of its increments.
\<close>

theorem concatenation_interleaved_counterexample:
  "(case submit (\<lambda>r. \<lparr> agent_name = r, systemPrompt = [] \<rparr>) 0 (initialApp\<lparr> input := ''hello'' \<rparr>) of
      None \<Rightarrow> False
    | Some (s1, a1) \<Rightarrow>
        (case onChunk (Some ''Hi'') (s1, streamOpened (addTokens 3 a1)) of
           Inl e \<Rightarrow> False
         | Inr (s2, a2) \<Rightarrow>
             (case submit (\<lambda>r. \<lparr> agent_name = r, systemPrompt = [] \<rparr>) 1 (a2\<lparr> input := ''wait'' \<rparr>) of
                None \<Rightarrow> False
              | Some (t1, a3) \<Rightarrow>
                  (case onChunk (Some '' there'') (s2, a3) of
                     Inl e \<Rightarrow> False
                   | Inr (s3, a4) \<Rightarrow>
                       chatHistories (finallyBlock (addTokens 2 (streamExhausted a4)))
                         ''METHODS_SPECIALIST'' =
                         Some [\<lparr> role = User, content = ''hello'', agentId = None \<rparr>,
                               \<lparr> role = Assistant, content = ''Hi'',
                                 agentId = Some ''METHODS_SPECIALIST'' \<rparr>,
                               \<lparr> role = User, content = ''wait there'', agentId = None \<rparr>]
                       \<and> chunkTexts [Some ''Hi'', Some '' there''] = ''Hi there''))))"
  by (simp add: submit_def Let_def initialApp_def trim_def isWhiteSpace_def streamOpened_def
      addTokens_def onChunk_def finallyBlock_def streamExhausted_def chunkTexts_def)

text \<open>
  C6, amended: take an accepted send whose token counts return and whose stream delivers
  increments of which at least one is non-empty, and let other handlers run at every
  suspension of the send, in any way that leaves the log of its specialist as it is
  (a change of the selection, typing, attaching files, a send to another specialist).
  Then, when the stream is exhausted and again when the handler has returned, the log
  of that specialist is the log before the send followed by the user message and one
  assistant message; the content of that message is the ordered concatenation of the
  texts of all increments, and its role and specialist id are those set at the first
  non-empty increment.
\<close>

theorem assistant_message_is_concatenation:
  assumes "trim (input st) \<noteq> []" and "\<not> isLoading st"
    and "chunkTexts (map snd steps) \<noteq> []"
    and "\<forall>x. chatHistories (whileCountingInput others x) (selectedAgent st) =
             chatHistories x (selectedAgent st)"
    and "\<forall>x. chatHistories (whileOpeningStream others x) (selectedAgent st) =
             chatHistories x (selectedAgent st)"
    and "\<forall>p \<in> set steps. \<forall>x. chatHistories (fst p x) (selectedAgent st) =
             chatHistories x (selectedAgent st)"
    and "\<forall>x. chatHistories (whileStreamEnds others x) (selectedAgent st) =
             chatHistories x (selectedAgent st)"
    and "\<forall>x. chatHistories (whileCountingOutput others x) (selectedAgent st) =
             chatHistories x (selectedAgent st)"
  shows "(\<exists>s st1 s' st2.
           submit AGENT_ROLES now st = Some (s, st1)
         \<and> forAwaitAmong steps
               (s, streamOpened (whileOpeningStream others
                     (addTokens n (whileCountingInput others st1)))) = Inr (s', st2)
         \<and> chatHistories st2 (selectedAgent st) =
             Some (orEmpty (chatHistories st (selectedAgent st)) @
                   [\<lparr> role = User, content = input st, agentId = None \<rparr>,
                    \<lparr> role = Assistant, content = chunkTexts (map snd steps),
                      agentId = Some (selectedAgent st) \<rparr>]))
       \<and> (\<exists>st'. handleSendMessageAmong AGENT_ROLES now n steps m others st = Inr st'
         \<and> chatHistories st' (selectedAgent st) =
             Some (orEmpty (chatHistories st (selectedAgent st)) @
                   [\<lparr> role = User, content = input st, agentId = None \<rparr>,
                    \<lparr> role = Assistant, content = chunkTexts (map snd steps),
                      agentId = Some (selectedAgent st) \<rparr>]))"
proof -
  obtain s st1 where sub: "submit AGENT_ROLES now st = Some (s, st1)"
    and cap: "capturedAgent s = selectedAgent st" and fc: "firstChunk s"
    and log: "chatHistories st1 = (chatHistories st)
           (selectedAgent st \<mapsto> orEmpty (chatHistories st (selectedAgent st)) @
              [\<lparr> role = User, content = input st, agentId = None \<rparr>])"
    using assms(1,2) by (rule submit_shape)
  let ?A = "selectedAgent st"
  let ?h = "orEmpty (chatHistories st ?A) @ [\<lparr> role = User, content = input st, agentId = None \<rparr>]"
  let ?st2 = "streamOpened (whileOpeningStream others (addTokens n (whileCountingInput others st1)))"
  have log2: "orEmpty (chatHistories ?st2 (capturedAgent s)) = ?h"
    using assms(4,5) by (simp add: streamOpened_def addTokens_def log cap)
  from assms(6) cap have keep: "\<forall>p \<in> set steps. \<forall>x.
      chatHistories (fst p x) (capturedAgent s) = chatHistories x (capturedAgent s)"
    by simp
  from forAwaitAmong_first [OF fc keep, of ?st2] log2 cap assms(3)
  obtain s' st' where loop: "forAwaitAmong steps (s, ?st2) = Inr (s', st')"
    and log': "orEmpty (chatHistories st' ?A) =
        ?h @ [\<lparr> role = Assistant, content = chunkTexts (map snd steps), agentId = Some ?A \<rparr>]"
    by (auto simp: assistantPart_def)
  let ?end = "finallyBlock (addTokens m (whileCountingOutput others
                (streamExhausted (whileStreamEnds others st'))))"
  have run: "handleSendMessageAmong AGENT_ROLES now n steps m others st = Inr ?end"
    by (simp only: handleSendMessageAmong_def sub option.case prod.case loop sum.case)
  have same: "chatHistories ?end ?A = chatHistories st' ?A"
    using assms(7,8) by (simp add: finallyBlock_def addTokens_def streamExhausted_def)
  from log' have exhausted: "chatHistories st' ?A =
      Some (?h @ [\<lparr> role = Assistant, content = chunkTexts (map snd steps), agentId = Some ?A \<rparr>])"
    by (rule orEmpty_nonempty) simp
  from sub loop exhausted have "\<exists>s st1 s' st2.
           submit AGENT_ROLES now st = Some (s, st1)
         \<and> forAwaitAmong steps
               (s, streamOpened (whileOpeningStream others
                     (addTokens n (whileCountingInput others st1)))) = Inr (s', st2)
         \<and> chatHistories st2 ?A =
             Some (orEmpty (chatHistories st ?A) @
                   [\<lparr> role = User, content = input st, agentId = None \<rparr>,
                    \<lparr> role = Assistant, content = chunkTexts (map snd steps),
                      agentId = Some ?A \<rparr>])"
    by auto
  moreover from same exhausted run have
    "\<exists>st'. handleSendMessageAmong AGENT_ROLES now n steps m others st = Inr st'
         \<and> chatHistories st' ?A =
             Some (orEmpty (chatHistories st ?A) @
                   [\<lparr> role = User, content = input st, agentId = None \<rparr>,
                    \<lparr> role = Assistant, content = chunkTexts (map snd steps),
                      agentId = Some ?A \<rparr>])"
    by simp
  ultimately show ?thesis by (rule conjI)
qed


theorem assistant_message_is_concatenation_witness:
  "trim (input (initialApp\<lparr> input := ''hello'' \<rparr>)) \<noteq> []
   \<and> \<not> isLoading (initialApp\<lparr> input := ''hello'' \<rparr>)
   \<and> chunkTexts (map snd
          [(\<lambda>x. x, Some ''Hi''),
           (\<lambda>x. x\<lparr> selectedAgent := ''SUBSEA_ENGINEER'' \<rparr>, None),
           (\<lambda>x. x\<lparr> input := ''next'' \<rparr>, Some '' there'')]) \<noteq> []
   \<and> (\<exists>st'. handleSendMessageAmong (\<lambda>r. \<lparr> agent_name = r, systemPrompt = [] \<rparr>) 0 3
              [(\<lambda>x. x, Some ''Hi''),
               (\<lambda>x. x\<lparr> selectedAgent := ''SUBSEA_ENGINEER'' \<rparr>, None),
               (\<lambda>x. x\<lparr> input := ''next'' \<rparr>, Some '' there'')] 2
              \<lparr> whileCountingInput = (\<lambda>x. x\<lparr> input := ''n'' \<rparr>),
                whileOpeningStream = (\<lambda>x. x),
                whileStreamEnds = (\<lambda>x. x),
                whileCountingOutput = (\<lambda>x. x\<lparr> selectedAgent := ''METHODS_SPECIALIST'' \<rparr>) \<rparr>
              (initialApp\<lparr> input := ''hello'' \<rparr>)
            = Inr st'
          \<and> chatHistories st' ''METHODS_SPECIALIST'' =
              Some [\<lparr> role = User, content = ''hello'', agentId = None \<rparr>,
                    \<lparr> role = Assistant, content = ''Hi there'',
                      agentId = Some ''METHODS_SPECIALIST'' \<rparr>])"
proof -
  let ?X = "initialApp\<lparr> input := ''hello'' \<rparr>"
  let ?steps = "[(\<lambda>x. x, Some ''Hi''),
           (\<lambda>x. x\<lparr> selectedAgent := ''SUBSEA_ENGINEER'' \<rparr>, None),
           (\<lambda>x. x\<lparr> input := ''next'' \<rparr>, Some '' there'')]
             :: ((App \<Rightarrow> App) \<times> string option) list"
  let ?others = "\<lparr> whileCountingInput = (\<lambda>x. x\<lparr> input := ''n'' \<rparr>),
                whileOpeningStream = (\<lambda>x. x),
                whileStreamEnds = (\<lambda>x. x),
                whileCountingOutput = (\<lambda>x. x\<lparr> selectedAgent := ''METHODS_SPECIALIST'' \<rparr>) \<rparr>
                  :: Others"
  have h: "trim (input ?X) \<noteq> []" "\<not> isLoading ?X" "chunkTexts (map snd ?steps) \<noteq> []"
    by (simp_all add: initialApp_def trim_def isWhiteSpace_def chunkTexts_def)
  have k: "\<forall>x. chatHistories (whileCountingInput ?others x) (selectedAgent ?X) =
             chatHistories x (selectedAgent ?X)"
    "\<forall>x. chatHistories (whileOpeningStream ?others x) (selectedAgent ?X) =
             chatHistories x (selectedAgent ?X)"
    "\<forall>p \<in> set ?steps. \<forall>x. chatHistories (fst p x) (selectedAgent ?X) =
             chatHistories x (selectedAgent ?X)"
    "\<forall>x. chatHistories (whileStreamEnds ?others x) (selectedAgent ?X) =
             chatHistories x (selectedAgent ?X)"
    "\<forall>x. chatHistories (whileCountingOutput ?others x) (selectedAgent ?X) =
             chatHistories x (selectedAgent ?X)"
    by simp_all
  show ?thesis
    using h assistant_message_is_concatenation [OF h k,
        of "\<lambda>r. \<lparr> agent_name = r, systemPrompt = [] \<rparr>" 0 3 2, THEN conjunct2]
    by (simp add: initialApp_def chunkTexts_def)
qed

text \<open>
  C7: for every accepted send in which the input token count, the opening of the stream,
  the stream itself or the output token count raises an error, the handler returns, the
  log of the sending specialist is the log before the send followed by the user message,
  the partial assistant response assembled from the increments delivered before the
  error (unchanged, if there is one) and exactly one apology message; the other logs are
  unchanged and the loading and streaming flags are cleared. Whatever the state \<open>x\<close> in
  which the error of a send \<open>s\<close> is caught, the \<^verbatim>\<open>catch\<close> and \<^verbatim>\<open>finally\<close> blocks append
  the apology after the messages that are in the log of its specialist, change nothing
  else in the logs and clear both flags.
\<close>

theorem error_appends_one_apology:
  assumes "trim (input st) \<noteq> []" and "\<not> isLoading st" and "raises run"
  shows "(\<exists>st'. handleSendMessage AGENT_ROLES now run st = Inr st'
       \<and> chatHistories st' (selectedAgent st) =
           Some (orEmpty (chatHistories st (selectedAgent st)) @
                 [\<lparr> role = User, content = input st, agentId = None \<rparr>] @
                 assistantPart (selectedAgent st) (delivered run) @
                 [\<lparr> role = Assistant,
                    content = ''Sorry, I encountered an error. Please try again.'',
                    agentId = Some (selectedAgent st) \<rparr>])
       \<and> (\<forall>b. b \<noteq> selectedAgent st \<longrightarrow> chatHistories st' b = chatHistories st b)
       \<and> \<not> isLoading st' \<and> \<not> isStreaming st')
     \<and> chatHistories (finallyBlock (catchBlock s x)) =
         (chatHistories x)
           (capturedAgent s \<mapsto> orEmpty (chatHistories x (capturedAgent s)) @
              [\<lparr> role = Assistant,
                 content = ''Sorry, I encountered an error. Please try again.'',
                 agentId = Some (capturedAgent s) \<rparr>])
     \<and> \<not> isLoading (finallyBlock (catchBlock s x))
     \<and> \<not> isStreaming (finallyBlock (catchBlock s x))"
proof -
  from run_raises [OF assms, of AGENT_ROLES now]
  obtain st' where "handleSendMessage AGENT_ROLES now run st = Inr st'"
    and "chatHistories st' = (chatHistories st)
          (selectedAgent st \<mapsto> orEmpty (chatHistories st (selectedAgent st)) @
             [\<lparr> role = User, content = input st, agentId = None \<rparr>] @
             assistantPart (selectedAgent st) (delivered run) @
             [errorMessage (selectedAgent st)])"
    and "\<not> isLoading st'" and "\<not> isStreaming st'"
    by blast
  then have "\<exists>st'. handleSendMessage AGENT_ROLES now run st = Inr st'
       \<and> chatHistories st' (selectedAgent st) =
           Some (orEmpty (chatHistories st (selectedAgent st)) @
                 [\<lparr> role = User, content = input st, agentId = None \<rparr>] @
                 assistantPart (selectedAgent st) (delivered run) @
                 [\<lparr> role = Assistant,
                    content = ''Sorry, I encountered an error. Please try again.'',
                    agentId = Some (selectedAgent st) \<rparr>])
       \<and> (\<forall>b. b \<noteq> selectedAgent st \<longrightarrow> chatHistories st' b = chatHistories st b)
       \<and> \<not> isLoading st' \<and> \<not> isStreaming st'"
    by (simp add: errorMessage_def)
  then show ?thesis
    by (simp add: finallyBlock_def catchBlock_def errorMessage_def)
qed

theorem error_appends_one_apology_witness:
  "trim (input (initialApp\<lparr> input := ''hello'' \<rparr>)) \<noteq> []
   \<and> \<not> isLoading (initialApp\<lparr> input := ''hello'' \<rparr>)
   \<and> raises (StreamFails 3 [Some ''Hi'', Some '' th''])
   \<and> (\<exists>st'. handleSendMessage (\<lambda>r. \<lparr> agent_name = r, systemPrompt = [] \<rparr>) 0
              (StreamFails 3 [Some ''Hi'', Some '' th'']) (initialApp\<lparr> input := ''hello'' \<rparr>)
            = Inr st'
          \<and> chatHistories st' ''METHODS_SPECIALIST'' =
              Some [\<lparr> role = User, content = ''hello'', agentId = None \<rparr>,
                    \<lparr> role = Assistant, content = ''Hi th'',
                      agentId = Some ''METHODS_SPECIALIST'' \<rparr>,
                    \<lparr> role = Assistant,
                      content = ''Sorry, I encountered an error. Please try again.'',
                      agentId = Some ''METHODS_SPECIALIST'' \<rparr>]
          \<and> \<not> isLoading st' \<and> \<not> isStreaming st')"
proof -
  have h: "trim (input (initialApp\<lparr> input := ''hello'' \<rparr>)) \<noteq> []"
    "\<not> isLoading (initialApp\<lparr> input := ''hello'' \<rparr>)"
    "raises (StreamFails 3 [Some ''Hi'', Some '' th''])"
    by (simp_all add: initialApp_def trim_def isWhiteSpace_def)
  show ?thesis
    using h error_appends_one_apology [OF h,
        of "\<lambda>r. \<lparr> agent_name = r, systemPrompt = [] \<rparr>" 0, THEN conjunct1]
    by (simp add: initialApp_def chunkTexts_def assistantPart_def) blast
qed


text \<open>
  C9: when the files already attached and the files of a newly selected batch are
  together more than five, the handler adds no file of the batch: the attachment list is
  unchanged and only the error message is set, also when some files of the batch would
  fit under the limit.
\<close>

theorem too_many_files_rejected:
  assumes "length (uploadedFiles st) + length batch > 5"
  shows "handleFileChange (Some batch) st =
           st\<lparr> fileError := Some ''You can upload a maximum of 5 files.'' \<rparr>
       \<and> uploadedFiles (handleFileChange (Some batch) st) = uploadedFiles st"
  using assms by (simp add: handleFileChange_def MAX_FILES_def toString.simps)

theorem too_many_files_rejected_witness:
  "length (uploadedFiles (initialApp\<lparr> uploadedFiles :=
       replicate 4 \<lparr> uploaded = \<lparr> upload_name = ''a.txt'', mimeType = ''text/plain'', data = ''QQ=='' \<rparr>,
                     status = ready, progress = 100 \<rparr> \<rparr>))
     + length [\<lparr> file_name = ''b.txt'', file_type = ''text/plain'', file_size = 1,
                 file_reading = Some ''data:text/plain;base64,Qg=='' \<rparr>,
               \<lparr> file_name = ''c.txt'', file_type = ''text/plain'', file_size = 1,
                 file_reading = Some ''data:text/plain;base64,Qw=='' \<rparr>] > 5
   \<and> uploadedFiles (handleFileChange
        (Some [\<lparr> file_name = ''b.txt'', file_type = ''text/plain'', file_size = 1,
                 file_reading = Some ''data:text/plain;base64,Qg=='' \<rparr>,
               \<lparr> file_name = ''c.txt'', file_type = ''text/plain'', file_size = 1,
                 file_reading = Some ''data:text/plain;base64,Qw=='' \<rparr>])
        (initialApp\<lparr> uploadedFiles :=
           replicate 4 \<lparr> uploaded = \<lparr> upload_name = ''a.txt'', mimeType = ''text/plain'', data = ''QQ=='' \<rparr>,
                         status = ready, progress = 100 \<rparr> \<rparr>))
     = replicate 4 \<lparr> uploaded = \<lparr> upload_name = ''a.txt'', mimeType = ''text/plain'', data = ''QQ=='' \<rparr>,
                     status = ready, progress = 100 \<rparr>
   \<and> fileError (handleFileChange
        (Some [\<lparr> file_name = ''b.txt'', file_type = ''text/plain'', file_size = 1,
                 file_reading = Some ''data:text/plain;base64,Qg=='' \<rparr>,
               \<lparr> file_name = ''c.txt'', file_type = ''text/plain'', file_size = 1,
                 file_reading = Some ''data:text/plain;base64,Qw=='' \<rparr>])
        (initialApp\<lparr> uploadedFiles :=
           replicate 4 \<lparr> uploaded = \<lparr> upload_name = ''a.txt'', mimeType = ''text/plain'', data = ''QQ=='' \<rparr>,
                         status = ready, progress = 100 \<rparr> \<rparr>))
     = Some ''You can upload a maximum of 5 files.''"
proof -
  let ?st = "initialApp\<lparr> uploadedFiles :=
       replicate 4 \<lparr> uploaded = \<lparr> upload_name = ''a.txt'', mimeType = ''text/plain'', data = ''QQ=='' \<rparr>,
                     status = ready, progress = 100 \<rparr> \<rparr>"
  let ?batch = "[\<lparr> file_name = ''b.txt'', file_type = ''text/plain'', file_size = 1,
                 file_reading = Some ''data:text/plain;base64,Qg=='' \<rparr>,
               \<lparr> file_name = ''c.txt'', file_type = ''text/plain'', file_size = 1,
                 file_reading = Some ''data:text/plain;base64,Qw=='' \<rparr>]"
  have h: "length (uploadedFiles ?st) + length ?batch > 5"
    by simp
  show ?thesis
    using h too_many_files_rejected [OF h] by simp
qed

text \<open>
  C10: when every increment of the stream of an accepted send has empty text (or none)
  and both token counts return, the handler returns; no assistant message is appended,
  so the log of the specialist is the log before the send followed by the user message
  and the other logs are unchanged; the token count has grown by both estimates; the
  loading and streaming flags are cleared, and no apology message is appended. In
  whatever state \<open>x\<close> such increments arrive, they change neither the state nor the
  send.
\<close>

theorem silent_stream_appends_nothing:
  assumes "trim (input st) \<noteq> []" and "\<not> isLoading st"
    and "\<forall>c \<in> set chunks. c = None \<or> c = Some []"
  shows "(\<exists>st'. handleSendMessage AGENT_ROLES now (Completes n chunks m) st = Inr st'
       \<and> chatHistories st' = (chatHistories st)
            (selectedAgent st \<mapsto> orEmpty (chatHistories st (selectedAgent st)) @
               [\<lparr> role = User, content = input st, agentId = None \<rparr>])
       \<and> tokenCount st' = tokenCount st + n + m
       \<and> \<not> isLoading st' \<and> \<not> isStreaming st')
     \<and> forAwait chunks (s, x) = Inr (s, x)"
proof -
  from assms(3) have silent: "chunkTexts chunks = []"
    by (induction chunks) auto
  then have "assistantPart (selectedAgent st) chunks = []"
    by (simp add: assistantPart_def)
  with run_completes [OF assms(1,2), of AGENT_ROLES now n chunks m] silent
  show ?thesis by (simp add: forAwait_silent)
qed

theorem silent_stream_appends_nothing_witness:
  "trim (input (initialApp\<lparr> input := ''hello'' \<rparr>)) \<noteq> []
   \<and> \<not> isLoading (initialApp\<lparr> input := ''hello'' \<rparr>)
   \<and> (\<exists>st'. handleSendMessage (\<lambda>r. \<lparr> agent_name = r, systemPrompt = [] \<rparr>) 0
              (Completes 3 [Some [], None, Some []] 2) (initialApp\<lparr> input := ''hello'' \<rparr>)
            = Inr st'
          \<and> chatHistories st' ''METHODS_SPECIALIST'' =
              Some [\<lparr> role = User, content = ''hello'', agentId = None \<rparr>]
          \<and> tokenCount st' = 5
          \<and> \<not> isLoading st' \<and> \<not> isStreaming st')"
proof -
  have h: "trim (input (initialApp\<lparr> input := ''hello'' \<rparr>)) \<noteq> []"
    "\<not> isLoading (initialApp\<lparr> input := ''hello'' \<rparr>)"
    "\<forall>c \<in> set [Some [], None, Some []]. c = None \<or> c = Some ([] :: string)"
    by (simp_all add: initialApp_def trim_def isWhiteSpace_def)
  show ?thesis
    using h(1,2) silent_stream_appends_nothing [OF h,
        of "\<lambda>r. \<lparr> agent_name = r, systemPrompt = [] \<rparr>" 0 3 2, THEN conjunct1]
    by (simp add: initialApp_def) (metis fun_upd_same)
qed

end
